theory Spec2Isabelle
  imports Complex_Main
begin

section \<open>Export limits and the tile planner (hitomi-viewer.tsx)\<close>

text \<open>
  The export limits of one output format (\<^verbatim>\<open>ImageExportConfig\<close>). The optional
  \<^verbatim>\<open>quality\<close> field is only handed to the encoder and is left out. Widths, heights and
  the two limits are pixel counts: whole numbers, as the built-in table and every decoded
  image have them. The source computes with doubles, which are exact on whole numbers
  below \<open>2 ^ 53\<close>: there the model and the source agree, and the claims about the planner
  on arbitrary numbers are stated for that range. From \<open>2 ^ 53\<close> on, or with a limit that
  is not a whole number, the source rounds and the model does not describe it.
\<close>

record ImageExportConfig =
  mime :: string
  extension :: string
  maxDimension :: nat
  maxPixels :: nat

datatype ImageExportFormat = png | jpg | webp | avif

fun IMAGE_EXPORT_CONFIG :: "ImageExportFormat \<Rightarrow> ImageExportConfig" where
  "IMAGE_EXPORT_CONFIG png =
     \<lparr>mime = ''image/png'', extension = ''png'', maxDimension = 16384, maxPixels = 268435456\<rparr>"
| "IMAGE_EXPORT_CONFIG jpg =
     \<lparr>mime = ''image/jpeg'', extension = ''jpg'', maxDimension = 16384, maxPixels = 268435456\<rparr>"
| "IMAGE_EXPORT_CONFIG webp =
     \<lparr>mime = ''image/webp'', extension = ''webp'', maxDimension = 16383, maxPixels = 268435456\<rparr>"
| "IMAGE_EXPORT_CONFIG avif =
     \<lparr>mime = ''image/avif'', extension = ''avif'', maxDimension = 16384, maxPixels = 268435456\<rparr>"

record TilePlan =
  cols :: nat
  rows :: nat
  tileWidth :: nat
  tileHeight :: nat

text \<open>
  \<^verbatim>\<open>Math.ceil(a / b)\<close> for a pixel count \<open>a\<close> and a positive count \<open>b\<close>, both below
  \<open>2 ^ 53\<close>: the double quotient of two such numbers is never rounded down onto a whole
  number, so its ceiling is the rounded-up quotient.
\<close>

definition ceilDiv :: "nat \<Rightarrow> nat \<Rightarrow> nat" where
  "ceilDiv a b = (a + b - 1) div b"

text \<open>
  The \<^verbatim>\<open>while (tileWidth * tileHeight > maxPixels)\<close> loop of \<^verbatim>\<open>resolveTilePlan\<close>, on
  its four variables. Nothing in the loop bounds the number of rounds, so it is a partial
  function: \<open>None\<close> stands for a loop that never leaves. The counts never pass the larger
  of their first value and the extent (\<open>tileLoop_counts\<close> below), so for extents below
  \<open>2 ^ 53\<close> the additions \<^verbatim>\<open>cols += 1\<close> and \<^verbatim>\<open>rows += 1\<close> are exact in the source too,
  and so is the comparison of the product with a whole-number limit below \<open>2 ^ 53\<close>.
\<close>

partial_function (option) tileLoop ::
  "nat \<Rightarrow> nat \<Rightarrow> nat \<Rightarrow> nat \<Rightarrow> nat \<Rightarrow> nat \<Rightarrow> nat \<Rightarrow> TilePlan option" where
  "tileLoop w h pixelLimit c r tw th =
     (if tw * th > pixelLimit then
        (let c' = (if tw \<ge> th then c + 1 else c);
             r' = (if tw \<ge> th then r else r + 1)
         in tileLoop w h pixelLimit c' r' (ceilDiv w c') (ceilDiv h r'))
      else Some \<lparr>cols = c, rows = r, tileWidth = tw, tileHeight = th\<rparr>)"

declare tileLoop.simps [code]

text \<open>
  \<^verbatim>\<open>resolveTilePlan(width, height, limits)\<close>. With \<^verbatim>\<open>maxDimension = 0\<close> the source
  divides by zero and computes with \<^verbatim>\<open>Infinity\<close>; no finite plan comes out, which the
  model reports as \<open>None\<close> as well.
\<close>

definition resolveTilePlan :: "nat \<Rightarrow> nat \<Rightarrow> ImageExportConfig \<Rightarrow> TilePlan option" where
  "resolveTilePlan w h limits =
     (if maxDimension limits = 0 then None
      else let c = max 1 (ceilDiv w (maxDimension limits));
               r = max 1 (ceilDiv h (maxDimension limits))
           in tileLoop w h (maxPixels limits) c r (ceilDiv w c) (ceilDiv h r))"

text \<open>
  The last column (row) of a grid of \<open>n\<close> tiles of size \<open>tile\<close> starts inside an extent:
  the tile is not empty.
\<close>

definition lastTileOk :: "nat \<Rightarrow> nat \<Rightarrow> nat \<Rightarrow> bool" where
  "lastTileOk extent n tile \<longleftrightarrow> (n - 1) * tile < extent"

subsection \<open>Rounded-up division\<close>

lemma ceilDiv_le_iff: "0 < b \<Longrightarrow> ceilDiv a b \<le> n \<longleftrightarrow> a \<le> n * b"
proof -
  assume b: "0 < b"
  have "ceilDiv a b < Suc n \<longleftrightarrow> a + b - 1 < Suc n * b"
    unfolding ceilDiv_def using b by (simp only: div_less_iff_less_mult)
  also have "\<dots> \<longleftrightarrow> a \<le> n * b" using b by auto
  finally show ?thesis by (simp only: less_Suc_eq_le)
qed

lemma ceilDiv_covers: "0 < b \<Longrightarrow> a \<le> ceilDiv a b * b"
  using ceilDiv_le_iff [of b a "ceilDiv a b"] by simp

lemma ceilDiv_mono: "0 < b \<Longrightarrow> ceilDiv a (b + 1) \<le> ceilDiv a b"
proof -
  assume b: "0 < b"
  have "a \<le> ceilDiv a b * b" using b by (rule ceilDiv_covers)
  also have "\<dots> \<le> ceilDiv a b * (b + 1)" by simp
  finally show ?thesis using ceilDiv_le_iff [of "b + 1" a "ceilDiv a b"] by simp
qed

lemma ceilDiv_drop:
  assumes "0 < b" and "ceilDiv a (b + 1) < ceilDiv a b"
  shows "b * ceilDiv a (b + 1) < a"
proof -
  have "\<not> ceilDiv a b \<le> ceilDiv a (b + 1)" using assms(2) by simp
  then have "\<not> a \<le> ceilDiv a (b + 1) * b"
    using ceilDiv_le_iff [OF assms(1), of a "ceilDiv a (b + 1)"] by blast
  then show ?thesis by (simp add: mult.commute)
qed

lemma ceilDiv_ge2:
  assumes "0 < b" and "2 \<le> ceilDiv a b"
  shows "b < a"
proof -
  have "\<not> ceilDiv a b \<le> 1" using assms(2) by simp
  then have "\<not> a \<le> 1 * b"
    using ceilDiv_le_iff [OF assms(1), of a 1] by blast
  then show ?thesis by simp
qed

subsection \<open>The loop returns, and what it returns\<close>

text \<open>
  From every loop state with positive counts and a positive pixel limit the loop leaves.
  The measure is the room left below \<open>width\<close> and \<open>height\<close>: a round is only taken when the
  larger tile side is at least 2, and then the count on that side is still below the
  extent. A count whose last tile would be empty is never the final one: the round that
  produced it left both tile sides as they were, so the same branch is taken again.
\<close>

lemma tileLoop_inv:
  assumes mp: "0 < mp"
  shows "0 < c \<Longrightarrow> 0 < r \<Longrightarrow> tw = ceilDiv w c \<Longrightarrow> th = ceilDiv h r \<Longrightarrow>
     \<exists>p. tileLoop w h mp c r tw th = Some p \<and> c \<le> cols p \<and> r \<le> rows p
        \<and> tileWidth p = ceilDiv w (cols p) \<and> tileHeight p = ceilDiv h (rows p)
        \<and> tileWidth p * tileHeight p \<le> mp
        \<and> (lastTileOk w c tw \<or> (mp < tw * th \<and> th \<le> tw) \<longrightarrow> lastTileOk w (cols p) (tileWidth p))
        \<and> (lastTileOk h r th \<or> (mp < tw * th \<and> tw < th) \<longrightarrow> lastTileOk h (rows p) (tileHeight p))"
proof (induction "(w - c) + (h - r)" arbitrary: c r tw th rule: less_induct)
  case less
  show ?case
  proof (cases "mp < tw * th")
    case False
    then show ?thesis
      by (subst tileLoop.simps) (simp add: less.prems)
  next
    case over: True
    show ?thesis
    proof (cases "th \<le> tw")
      case True
      have "2 \<le> tw"
      proof (rule ccontr)
        assume "\<not> 2 \<le> tw"
        then have "tw \<le> 1" "th \<le> 1" using True by auto
        then have "tw * th \<le> 1 * 1" by (intro mult_mono) auto
        with over mp show False by simp
      qed
      then have cw: "c < w" using ceilDiv_ge2 [of c w] less.prems by simp
      let ?tw = "ceilDiv w (c + 1)"
      have step: "tileLoop w h mp c r tw th = tileLoop w h mp (c + 1) r ?tw th"
        using over True less.prems(4) by (subst tileLoop.simps) simp
      have smaller: "(w - (c + 1)) + (h - r) < (w - c) + (h - r)" using cw by simp
      have "0 < c + 1" by simp
      from less.hyps [OF smaller this \<open>0 < r\<close> refl \<open>th = ceilDiv h r\<close>]
      obtain p where p: "tileLoop w h mp (c + 1) r ?tw th = Some p" "c + 1 \<le> cols p" "r \<le> rows p"
        "tileWidth p = ceilDiv w (cols p)" "tileHeight p = ceilDiv h (rows p)"
        "tileWidth p * tileHeight p \<le> mp"
        "lastTileOk w (c + 1) ?tw \<or> (mp < ?tw * th \<and> th \<le> ?tw) \<longrightarrow> lastTileOk w (cols p) (tileWidth p)"
        "lastTileOk h r th \<or> (mp < ?tw * th \<and> ?tw < th) \<longrightarrow> lastTileOk h (rows p) (tileHeight p)"
        by blast
      have le: "?tw \<le> tw" using ceilDiv_mono [of c w] less.prems by simp
      have "lastTileOk w (c + 1) ?tw \<or> (mp < ?tw * th \<and> th \<le> ?tw)"
      proof (cases "?tw = tw")
        case True
        then show ?thesis using over \<open>th \<le> tw\<close> by simp
      next
        case False
        then have "?tw < ceilDiv w c" using le less.prems by simp
        then have "c * ?tw < w" using ceilDiv_drop [of c w] less.prems by simp
        then show ?thesis by (simp add: lastTileOk_def)
      qed
      then have gw: "lastTileOk w (cols p) (tileWidth p)" using p(7) by blast
      have gh: "lastTileOk h r th \<or> (mp < tw * th \<and> tw < th) \<longrightarrow> lastTileOk h (rows p) (tileHeight p)"
        using p(8) True by auto
      have "c \<le> cols p" using p(2) by simp
      then show ?thesis unfolding step using p(1,3,4,5,6) gw gh by blast
    next
      case False
      then have lt: "tw < th" by simp
      have "2 \<le> th"
      proof (rule ccontr)
        assume "\<not> 2 \<le> th"
        then have "tw \<le> 1" "th \<le> 1" using lt by auto
        then have "tw * th \<le> 1 * 1" by (intro mult_mono) auto
        with over mp show False by simp
      qed
      then have rh: "r < h" using ceilDiv_ge2 [of r h] less.prems by simp
      let ?th = "ceilDiv h (r + 1)"
      have step: "tileLoop w h mp c r tw th = tileLoop w h mp c (r + 1) tw ?th"
        using over lt less.prems(3) by (subst tileLoop.simps) simp
      have smaller: "(w - c) + (h - (r + 1)) < (w - c) + (h - r)" using rh by simp
      have "0 < r + 1" by simp
      from less.hyps [OF smaller \<open>0 < c\<close> this \<open>tw = ceilDiv w c\<close> refl]
      obtain p where p: "tileLoop w h mp c (r + 1) tw ?th = Some p" "c \<le> cols p" "r + 1 \<le> rows p"
        "tileWidth p = ceilDiv w (cols p)" "tileHeight p = ceilDiv h (rows p)"
        "tileWidth p * tileHeight p \<le> mp"
        "lastTileOk w c tw \<or> (mp < tw * ?th \<and> ?th \<le> tw) \<longrightarrow> lastTileOk w (cols p) (tileWidth p)"
        "lastTileOk h (r + 1) ?th \<or> (mp < tw * ?th \<and> tw < ?th) \<longrightarrow> lastTileOk h (rows p) (tileHeight p)"
        by blast
      have le: "?th \<le> th" using ceilDiv_mono [of r h] less.prems by simp
      have "lastTileOk h (r + 1) ?th \<or> (mp < tw * ?th \<and> tw < ?th)"
      proof (cases "?th = th")
        case True
        then show ?thesis using over lt by simp
      next
        case False
        then have "?th < ceilDiv h r" using le less.prems by simp
        then have "r * ?th < h" using ceilDiv_drop [of r h] less.prems by simp
        then show ?thesis by (simp add: lastTileOk_def)
      qed
      then have gh: "lastTileOk h (rows p) (tileHeight p)" using p(8) by blast
      have gw: "lastTileOk w c tw \<or> (mp < tw * th \<and> th \<le> tw) \<longrightarrow> lastTileOk w (cols p) (tileWidth p)"
        using p(7) lt by auto
      have "r \<le> rows p" using p(3) by simp
      then show ?thesis unfolding step using p(1,2,4,5,6) gw gh by blast
    qed
  qed
qed

text \<open>The first grid of \<^verbatim>\<open>resolveTilePlan\<close> already has a non-empty last tile.\<close>

lemma initial_lastTileOk:
  assumes md: "0 < md" and w: "0 < w"
  shows "lastTileOk w (max 1 (ceilDiv w md)) (ceilDiv w (max 1 (ceilDiv w md)))"
proof -
  let ?c = "max 1 (ceilDiv w md)"
  have cpos: "0 < ?c" by simp
  have "ceilDiv w md \<le> ?c" by simp
  then have "w \<le> ?c * md" using ceilDiv_le_iff [OF md, of w ?c] by blast
  then have "w \<le> md * ?c" by (simp add: mult.commute)
  then have tw: "ceilDiv w ?c \<le> md" using ceilDiv_le_iff [OF cpos, of w md] by blast
  show ?thesis
  proof (cases "ceilDiv w md \<le> 1")
    case True
    then have "?c = 1" by simp
    then show ?thesis using w by (simp add: lastTileOk_def)
  next
    case False
    then have c: "?c = ceilDiv w md" by simp
    have "\<not> ceilDiv w md \<le> ?c - 1" using False by simp
    then have "\<not> w \<le> (?c - 1) * md" using ceilDiv_le_iff [OF md, of w "?c - 1"] by blast
    then have "(?c - 1) * md < w" by simp
    moreover have "(?c - 1) * ceilDiv w ?c \<le> (?c - 1) * md" using tw by (rule mult_le_mono2)
    ultimately show ?thesis unfolding lastTileOk_def by (rule le_less_trans [rotated])
  qed
qed

lemma resolveTilePlan_post:
  assumes md: "0 < maxDimension limits" and mp: "0 < maxPixels limits"
  shows "\<exists>p. resolveTilePlan w h limits = Some p
        \<and> max 1 (ceilDiv w (maxDimension limits)) \<le> cols p
        \<and> max 1 (ceilDiv h (maxDimension limits)) \<le> rows p
        \<and> tileWidth p = ceilDiv w (cols p) \<and> tileHeight p = ceilDiv h (rows p)
        \<and> tileWidth p * tileHeight p \<le> maxPixels limits
        \<and> (0 < w \<longrightarrow> lastTileOk w (cols p) (tileWidth p))
        \<and> (0 < h \<longrightarrow> lastTileOk h (rows p) (tileHeight p))"
proof -
  let ?c = "max 1 (ceilDiv w (maxDimension limits))"
  let ?r = "max 1 (ceilDiv h (maxDimension limits))"
  have "0 < ?c" "0 < ?r" by simp_all
  from tileLoop_inv [OF mp this refl refl, of w h]
  obtain p where p: "tileLoop w h (maxPixels limits) ?c ?r (ceilDiv w ?c) (ceilDiv h ?r) = Some p"
    "?c \<le> cols p" "?r \<le> rows p"
    "tileWidth p = ceilDiv w (cols p)" "tileHeight p = ceilDiv h (rows p)"
    "tileWidth p * tileHeight p \<le> maxPixels limits"
    "lastTileOk w ?c (ceilDiv w ?c) \<longrightarrow> lastTileOk w (cols p) (tileWidth p)"
    "lastTileOk h ?r (ceilDiv h ?r) \<longrightarrow> lastTileOk h (rows p) (tileHeight p)"
    by blast
  have run: "resolveTilePlan w h limits = Some p"
    using md p(1) by (simp add: resolveTilePlan_def Let_def)
  have gw: "0 < w \<longrightarrow> lastTileOk w (cols p) (tileWidth p)"
    using initial_lastTileOk [OF md, of w] p(7) by blast
  have gh: "0 < h \<longrightarrow> lastTileOk h (rows p) (tileHeight p)"
    using initial_lastTileOk [OF md, of h] p(8) by blast
  show ?thesis using run p(2-6) gw gh by blast
qed

text \<open>What the limits give for the final plan: tiles within the dimension limit that
  cover the image.\<close>

lemma plan_bounds:
  assumes md: "0 < md" and c: "max 1 (ceilDiv w md) \<le> c" and t: "t = ceilDiv w c"
  shows "t \<le> md \<and> w \<le> c * t"
proof -
  have cpos: "0 < c" using c by simp
  have "ceilDiv w md \<le> c" using c by simp
  then have "w \<le> c * md" using ceilDiv_le_iff [OF md, of w c] by blast
  then have "w \<le> md * c" by (simp add: mult.commute)
  then have "ceilDiv w c \<le> md" using ceilDiv_le_iff [OF cpos, of w md] by blast
  moreover have "w \<le> ceilDiv w c * c" using cpos by (rule ceilDiv_covers)
  ultimately show ?thesis using t by (simp add: mult.commute)
qed

text \<open>The counts of the plan stay within the extents, and so below \<open>2 ^ 53\<close> with them.\<close>

lemma tileLoop_counts:
  assumes mp: "0 < mp"
  shows "0 < c \<Longrightarrow> 0 < r \<Longrightarrow> tw = ceilDiv w c \<Longrightarrow> th = ceilDiv h r \<Longrightarrow>
     tileLoop w h mp c r tw th = Some p \<Longrightarrow> cols p \<le> max c w \<and> rows p \<le> max r h"
proof (induction "(w - c) + (h - r)" arbitrary: c r tw th rule: less_induct)
  case less
  show ?case
  proof (cases "mp < tw * th")
    case False
    then have "tileLoop w h mp c r tw th = Some \<lparr>cols = c, rows = r, tileWidth = tw, tileHeight = th\<rparr>"
      by (subst tileLoop.simps) simp
    then have "p = \<lparr>cols = c, rows = r, tileWidth = tw, tileHeight = th\<rparr>" using less.prems(5) by simp
    then show ?thesis by simp
  next
    case over: True
    show ?thesis
    proof (cases "th \<le> tw")
      case True
      have "2 \<le> tw"
      proof (rule ccontr)
        assume "\<not> 2 \<le> tw"
        then have "tw \<le> 1" "th \<le> 1" using True by auto
        then have "tw * th \<le> 1 * 1" by (intro mult_mono) auto
        with over mp show False by simp
      qed
      then have cw: "c < w" using ceilDiv_ge2 [of c w] less.prems by simp
      have step: "tileLoop w h mp c r tw th = tileLoop w h mp (c + 1) r (ceilDiv w (c + 1)) th"
        using over True less.prems(4) by (subst tileLoop.simps) simp
      have smaller: "(w - (c + 1)) + (h - r) < (w - c) + (h - r)" using cw by simp
      have "0 < c + 1" by simp
      from less.hyps [OF smaller this \<open>0 < r\<close> refl \<open>th = ceilDiv h r\<close>] less.prems(5) step
      have "cols p \<le> max (c + 1) w \<and> rows p \<le> max r h" by simp
      then show ?thesis using cw by simp
    next
      case False
      then have lt: "tw < th" by simp
      have "2 \<le> th"
      proof (rule ccontr)
        assume "\<not> 2 \<le> th"
        then have "tw \<le> 1" "th \<le> 1" using lt by auto
        then have "tw * th \<le> 1 * 1" by (intro mult_mono) auto
        with over mp show False by simp
      qed
      then have rh: "r < h" using ceilDiv_ge2 [of r h] less.prems by simp
      have step: "tileLoop w h mp c r tw th = tileLoop w h mp c (r + 1) tw (ceilDiv h (r + 1))"
        using over lt less.prems(3) by (subst tileLoop.simps) simp
      have smaller: "(w - c) + (h - (r + 1)) < (w - c) + (h - r)" using rh by simp
      have "0 < r + 1" by simp
      from less.hyps [OF smaller \<open>0 < c\<close> this \<open>tw = ceilDiv w c\<close> refl] less.prems(5) step
      have "cols p \<le> max c w \<and> rows p \<le> max (r + 1) h" by simp
      then show ?thesis using rh by simp
    qed
  qed
qed

lemma resolveTilePlan_counts:
  assumes "0 < maxDimension limits" and "0 < maxPixels limits"
    and "resolveTilePlan w h limits = Some p"
  shows "cols p \<le> max 1 w \<and> rows p \<le> max 1 h"
proof -
  let ?c = "max 1 (ceilDiv w (maxDimension limits))"
  let ?r = "max 1 (ceilDiv h (maxDimension limits))"
  have run: "tileLoop w h (maxPixels limits) ?c ?r (ceilDiv w ?c) (ceilDiv h ?r) = Some p"
    using assms(1,3) by (simp add: resolveTilePlan_def Let_def)
  have "0 < ?c" "0 < ?r" by simp_all
  from tileLoop_counts [OF assms(2) this refl refl run]
  have b: "cols p \<le> max ?c w \<and> rows p \<le> max ?r h" .
  have "w \<le> w * maxDimension limits" "h \<le> h * maxDimension limits" using assms(1) by simp_all
  then have "ceilDiv w (maxDimension limits) \<le> w" "ceilDiv h (maxDimension limits) \<le> h"
    using ceilDiv_le_iff [OF assms(1)] by blast+
  then show ?thesis using b by auto
qed

section \<open>Claims about the tile planner\<close>

text \<open>
  C2 (tile plan invariant). For every width, height, \<open>maxDimension\<close> and \<open>maxPixels\<close> that
  are whole numbers below \<open>2 ^ 53\<close> (the range on which the source's doubles are exact),
  with \<open>maxDimension > 0\<close> and \<open>maxPixels > 0\<close>, \<^verbatim>\<open>resolveTilePlan\<close> returns a plan with
  \<open>tileWidth \<le> maxDimension\<close>, \<open>tileHeight \<le> maxDimension\<close>,
  \<open>tileWidth * tileHeight \<le> maxPixels\<close>, \<open>cols * tileWidth \<ge> width\<close> and
  \<open>rows * tileHeight \<ge> height\<close>; its counts stay below \<open>2 ^ 53\<close> as well.
\<close>

theorem resolveTilePlan_invariant:
  assumes "0 < maxDimension limits" and "0 < maxPixels limits"
    and "w < 2 ^ 53" and "h < 2 ^ 53"
    and "maxDimension limits < 2 ^ 53" and "maxPixels limits < 2 ^ 53"
  shows "\<exists>p. resolveTilePlan w h limits = Some p
       \<and> tileWidth p \<le> maxDimension limits
       \<and> tileHeight p \<le> maxDimension limits
       \<and> tileWidth p * tileHeight p \<le> maxPixels limits
       \<and> cols p * tileWidth p \<ge> w
       \<and> rows p * tileHeight p \<ge> h
       \<and> cols p < 2 ^ 53 \<and> rows p < 2 ^ 53"
proof -
  from resolveTilePlan_post [OF assms(1,2), of w h]
  obtain p where p: "resolveTilePlan w h limits = Some p"
    "max 1 (ceilDiv w (maxDimension limits)) \<le> cols p"
    "max 1 (ceilDiv h (maxDimension limits)) \<le> rows p"
    "tileWidth p = ceilDiv w (cols p)" "tileHeight p = ceilDiv h (rows p)"
    "tileWidth p * tileHeight p \<le> maxPixels limits"
    by blast
  have "tileWidth p \<le> maxDimension limits \<and> w \<le> cols p * tileWidth p"
    using plan_bounds [OF assms(1) p(2) p(4)] .
  moreover have "tileHeight p \<le> maxDimension limits \<and> h \<le> rows p * tileHeight p"
    using plan_bounds [OF assms(1) p(3) p(5)] .
  moreover have "cols p \<le> max 1 w \<and> rows p \<le> max 1 h"
    using resolveTilePlan_counts [OF assms(1,2) p(1)] .
  then have "cols p < 2 ^ 53 \<and> rows p < 2 ^ 53" using assms(3,4) by auto
  ultimately show ?thesis using p(1,6) by blast
qed

theorem resolveTilePlan_invariant_witness:
  "resolveTilePlan 10 7 \<lparr>mime = ''image/png'', extension = ''png'', maxDimension = 4, maxPixels = 6\<rparr>
     = Some \<lparr>cols = 5, rows = 3, tileWidth = 2, tileHeight = 3\<rparr>
   \<and> (\<exists>p. resolveTilePlan 10 7
            \<lparr>mime = ''image/png'', extension = ''png'', maxDimension = 4, maxPixels = 6\<rparr> = Some p
       \<and> tileWidth p \<le> 4 \<and> tileHeight p \<le> 4 \<and> tileWidth p * tileHeight p \<le> 6
       \<and> cols p * tileWidth p \<ge> 10 \<and> rows p * tileHeight p \<ge> 7)"
proof -
  let ?lim = "\<lparr>mime = ''image/png'', extension = ''png'', maxDimension = 4, maxPixels = 6\<rparr>"
  have run: "resolveTilePlan 10 7 ?lim = Some \<lparr>cols = 5, rows = 3, tileWidth = 2, tileHeight = 3\<rparr>"
    by code_simp
  have "0 < maxDimension ?lim" "0 < maxPixels ?lim" "(10 :: nat) < 2 ^ 53" "(7 :: nat) < 2 ^ 53"
    "maxDimension ?lim < 2 ^ 53" "maxPixels ?lim < 2 ^ 53" by simp_all
  from resolveTilePlan_invariant [OF this] run show ?thesis by simp
qed

text \<open>
  C3 (tile planner termination). For width, height, \<open>maxDimension\<close> and \<open>maxPixels\<close> that are
  whole numbers below \<open>2 ^ 53\<close> (the range on which the source's doubles are exact), with
  \<open>maxDimension > 0\<close> and \<open>maxPixels > 0\<close>, the loop of \<^verbatim>\<open>resolveTilePlan\<close> leaves from
  every state it can be in (positive column and row counts in that range, with the tile
  sizes computed from them), so \<^verbatim>\<open>resolveTilePlan\<close> returns a plan, for positive width
  and height in particular.
\<close>

theorem resolveTilePlan_terminates:
  assumes "0 < maxDimension limits" and "0 < maxPixels limits"
    and "w < 2 ^ 53" and "h < 2 ^ 53"
    and "maxDimension limits < 2 ^ 53" and "maxPixels limits < 2 ^ 53"
  shows "(\<exists>p. resolveTilePlan w h limits = Some p)
       \<and> (\<forall>c r. 0 < c \<and> c < 2 ^ 53 \<and> 0 < r \<and> r < 2 ^ 53 \<longrightarrow>
            (\<exists>p. tileLoop w h (maxPixels limits) c r (ceilDiv w c) (ceilDiv h r) = Some p
                \<and> cols p < 2 ^ 53 \<and> rows p < 2 ^ 53))"
proof
  show "\<exists>p. resolveTilePlan w h limits = Some p"
    using resolveTilePlan_post [OF assms(1,2), of w h] by blast
next
  show "\<forall>c r. 0 < c \<and> c < 2 ^ 53 \<and> 0 < r \<and> r < 2 ^ 53 \<longrightarrow>
      (\<exists>p. tileLoop w h (maxPixels limits) c r (ceilDiv w c) (ceilDiv h r) = Some p
          \<and> cols p < 2 ^ 53 \<and> rows p < 2 ^ 53)"
  proof (intro allI impI)
    fix c r :: nat
    assume a: "0 < c \<and> c < 2 ^ 53 \<and> 0 < r \<and> r < 2 ^ 53"
    then have pos: "0 < c" "0 < r" by simp_all
    from tileLoop_inv [OF assms(2) pos refl refl, of w h]
    obtain p where p: "tileLoop w h (maxPixels limits) c r (ceilDiv w c) (ceilDiv h r) = Some p"
      by blast
    from tileLoop_counts [OF assms(2) pos refl refl p]
    have "cols p \<le> max c w \<and> rows p \<le> max r h" .
    then have "cols p < 2 ^ 53 \<and> rows p < 2 ^ 53" using a assms(3,4) by auto
    then show "\<exists>p. tileLoop w h (maxPixels limits) c r (ceilDiv w c) (ceilDiv h r) = Some p
          \<and> cols p < 2 ^ 53 \<and> rows p < 2 ^ 53"
      using p by blast
  qed
qed

theorem resolveTilePlan_terminates_witness:
  "(\<exists>p. resolveTilePlan 10 7
         \<lparr>mime = ''image/png'', extension = ''png'', maxDimension = 4, maxPixels = 6\<rparr> = Some p)
   \<and> (\<exists>p. tileLoop 10 7 6 2 4 (ceilDiv 10 2) (ceilDiv 7 4) = Some p)"
proof -
  let ?lim = "\<lparr>mime = ''image/png'', extension = ''png'', maxDimension = 4, maxPixels = 6\<rparr>"
  have "0 < maxDimension ?lim" "0 < maxPixels ?lim" "(10 :: nat) < 2 ^ 53" "(7 :: nat) < 2 ^ 53"
    "maxDimension ?lim < 2 ^ 53" "maxPixels ?lim < 2 ^ 53" by simp_all
  from resolveTilePlan_terminates [OF this] have
    "(\<exists>p. resolveTilePlan 10 7 ?lim = Some p)
     \<and> (\<forall>c r. 0 < c \<and> c < 2 ^ 53 \<and> 0 < r \<and> r < 2 ^ 53 \<longrightarrow>
            (\<exists>p. tileLoop 10 7 6 c r (ceilDiv 10 c) (ceilDiv 7 r) = Some p
                \<and> cols p < 2 ^ 53 \<and> rows p < 2 ^ 53))"
    by simp
  moreover have "(0 :: nat) < 2 \<and> (2 :: nat) < 2 ^ 53 \<and> (0 :: nat) < 4 \<and> (4 :: nat) < 2 ^ 53" by simp
  ultimately show ?thesis by blast
qed

section \<open>The split loop of the image export (hitomi-viewer.tsx)\<close>

text \<open>
  \<^verbatim>\<open>needsSplit\<close> and \<^verbatim>\<open>plan\<close> of \<^verbatim>\<open>handleDownloadImages\<close>: the tile plan of a loaded
  image is the planner's when splitting is asked for and the image exceeds a limit, and
  the single tile of the image's own size otherwise.
\<close>

definition needsSplit :: "bool \<Rightarrow> nat \<Rightarrow> nat \<Rightarrow> ImageExportConfig \<Rightarrow> bool" where
  "needsSplit split w h formatConfig \<longleftrightarrow>
     split \<and> (w > maxDimension formatConfig \<or> h > maxDimension formatConfig
              \<or> w * h > maxPixels formatConfig)"

definition tilePlanFor :: "bool \<Rightarrow> nat \<Rightarrow> nat \<Rightarrow> ImageExportConfig \<Rightarrow> TilePlan option" where
  "tilePlanFor split w h formatConfig =
     (if needsSplit split w h formatConfig then resolveTilePlan w h formatConfig
      else Some \<lparr>cols = 1, rows = 1, tileWidth = w, tileHeight = h\<rparr>)"

text \<open>
  The source rectangle \<^verbatim>\<open>(col * tileWidth, row * tileHeight, sw, sh)\<close> that the loop
  hands to \<^verbatim>\<open>drawImage\<close> for tile \<open>(row, col)\<close>. The subtraction of the source can go
  below zero, so the rectangle is over the integers.
\<close>

record CropRect =
  sx :: int
  sy :: int
  sw :: int
  sh :: int

definition tileCrop :: "TilePlan \<Rightarrow> nat \<Rightarrow> nat \<Rightarrow> nat \<Rightarrow> nat \<Rightarrow> CropRect" where
  "tileCrop plan w h row col =
     \<lparr>sx = int col * int (tileWidth plan),
      sy = int row * int (tileHeight plan),
      sw = min (int (tileWidth plan)) (int w - int col * int (tileWidth plan)),
      sh = min (int (tileHeight plan)) (int h - int row * int (tileHeight plan))\<rparr>"
















section \<open>JavaScript strings, numbers and regular expressions\<close>

text \<open>
  A string is the list of its code units, here the 8-bit characters of \<^typ>\<open>string\<close>: the
  model covers strings whose code units are below 256, which the routing script and the
  hex hashes are. Numbers are integers. JavaScript computes with doubles, which is exact
  for integers below \<open>2 ^ 53\<close>; bucket numbers are below 4096 and server indices are small.

  \<^verbatim>\<open>\s\<close> and the white space that \<^verbatim>\<open>parseInt\<close> skips (tab, line feed, vertical tab,
  form feed, carriage return, space, no-break space), and \<^verbatim>\<open>\d\<close>.
\<close>

definition isWhiteSpace :: "char \<Rightarrow> bool" where
  "isWhiteSpace c \<longleftrightarrow> of_char c \<in> {9, 10, 11, 12, 13, 32, 160 :: nat}"

definition isDigit :: "char \<Rightarrow> bool" where
  "isDigit c \<longleftrightarrow> 48 \<le> (of_char c :: nat) \<and> (of_char c :: nat) \<le> 57"

definition digitValue :: "char \<Rightarrow> nat" where
  "digitValue c = of_char c - 48"

text \<open>The value of a digit of radix 16, in either case.\<close>

definition hexDigitValue :: "char \<Rightarrow> nat option" where
  "hexDigitValue c =
     (let n = (of_char c :: nat) in
      if 48 \<le> n \<and> n \<le> 57 then Some (n - 48)
      else if 97 \<le> n \<and> n \<le> 102 then Some (n - 87)
      else if 65 \<le> n \<and> n \<le> 70 then Some (n - 55)
      else None)"

text \<open>
  The regular expressions of \<^verbatim>\<open>parseServerMap\<close> are built from single-character atoms
  (a literal, \<^verbatim>\<open>\s\<close>, \<^verbatim>\<open>\d\<close>, a class \<^verbatim>\<open>[...]\<close>, a negated class \<^verbatim>\<open>[^...]\<close>),
  sequence, alternation, the greedy \<^verbatim>\<open>?\<close>, the greedy \<^verbatim>\<open>*\<close> on an atom, and capture
  groups.
\<close>

datatype atom = Lit char | WhiteSpace | Digit | OneOf "atom list" | NoneOf "atom list"

fun atomMatches :: "atom \<Rightarrow> char \<Rightarrow> bool" where
  "atomMatches (Lit a) c \<longleftrightarrow> a = c"
| "atomMatches WhiteSpace c \<longleftrightarrow> isWhiteSpace c"
| "atomMatches Digit c \<longleftrightarrow> isDigit c"
| "atomMatches (OneOf as) c \<longleftrightarrow> (\<exists>a \<in> set as. atomMatches a c)"
| "atomMatches (NoneOf as) c \<longleftrightarrow> \<not> (\<exists>a \<in> set as. atomMatches a c)"

datatype regex =
    Eps
  | Atom atom
  | Seq regex regex
  | Alt regex regex
  | Opt regex
  | Star atom
  | Group nat regex

text \<open>
  The captures of a match, newest first: \<open>(i, text)\<close> says that group \<open>i\<close> matched \<open>text\<close>.
  A group that took no part in the match has no entry (\<^verbatim>\<open>undefined\<close> in the source).
\<close>

type_synonym captures = "(nat \<times> string) list"

text \<open>
  A backtracking matcher in continuation-passing style, as the ECMAScript semantics of
  regular expressions is defined: \<open>matchRe r s caps k\<close> matches \<open>r\<close> at the front of \<open>s\<close> and
  hands the rest of the input and the captures to \<open>k\<close>; when \<open>k\<close> fails, the next
  alternative is tried. Greedy operators try the longer match first. An iteration of
  \<^verbatim>\<open>?\<close> that matches the empty string is not taken.
\<close>

fun star :: "atom \<Rightarrow> string \<Rightarrow> captures \<Rightarrow> (string \<Rightarrow> captures \<Rightarrow> 'r option) \<Rightarrow> 'r option" where
  "star a [] caps k = k [] caps"
| "star a (c # cs) caps k =
     (if atomMatches a c
      then (case star a cs caps k of Some x \<Rightarrow> Some x | None \<Rightarrow> k (c # cs) caps)
      else k (c # cs) caps)"

fun matchRe :: "regex \<Rightarrow> string \<Rightarrow> captures \<Rightarrow> (string \<Rightarrow> captures \<Rightarrow> 'r option) \<Rightarrow> 'r option" where
  "matchRe Eps s caps k = k s caps"
| "matchRe (Atom a) s caps k =
     (case s of [] \<Rightarrow> None | c # cs \<Rightarrow> if atomMatches a c then k cs caps else None)"
| "matchRe (Seq r1 r2) s caps k = matchRe r1 s caps (\<lambda>s' caps'. matchRe r2 s' caps' k)"
| "matchRe (Alt r1 r2) s caps k =
     (case matchRe r1 s caps k of Some x \<Rightarrow> Some x | None \<Rightarrow> matchRe r2 s caps k)"
| "matchRe (Opt r) s caps k =
     (case matchRe r s caps (\<lambda>s' caps'. if length s' = length s then None else k s' caps') of
        Some x \<Rightarrow> Some x
      | None \<Rightarrow> k s caps)"
| "matchRe (Star a) s caps k = star a s caps k"
| "matchRe (Group i r) s caps k =
     matchRe r s caps (\<lambda>s' caps'. k s' ((i, take (length s - length s') s) # caps'))"


text \<open>
  \<open>search\<close> is one \<^verbatim>\<open>exec\<close>: the leftmost position at which the expression matches, with
  the captures, the input from the start of the match and the input after it.
\<close>

definition matchHere :: "regex \<Rightarrow> string \<Rightarrow> (captures \<times> string) option" where
  "matchHere r s = matchRe r s [] (\<lambda>s' caps. Some (caps, s'))"

fun search :: "regex \<Rightarrow> string \<Rightarrow> (captures \<times> string \<times> string) option" where
  "search r [] = (case matchHere r [] of None \<Rightarrow> None | Some (caps, rest) \<Rightarrow> Some (caps, [], rest))"
| "search r (c # cs) =
     (case matchHere r (c # cs) of
        Some (caps, rest) \<Rightarrow> Some (caps, c # cs, rest)
      | None \<Rightarrow> search r cs)"

definition exec :: "regex \<Rightarrow> string \<Rightarrow> captures option" where
  "exec r s = map_option fst (search r s)"

text \<open>A match never hands its continuation more input than it was given.\<close>

lemma star_shorter:
  "star a s caps k = Some x \<Longrightarrow> \<exists>s' caps'. k s' caps' = Some x \<and> length s' \<le> length s"
proof (induction s)
  case Nil
  then show ?case by auto
next
  case (Cons c cs)
  show ?case
  proof (cases "atomMatches a c \<and> star a cs caps k \<noteq> None")
    case True
    then have "star a cs caps k = Some x" using Cons.prems by auto
    from Cons.IH [OF this] show ?thesis by auto
  next
    case False
    then have "k (c # cs) caps = Some x" using Cons.prems by (auto split: if_splits option.splits)
    then show ?thesis by blast
  qed
qed

lemma matchRe_shorter:
  "matchRe r s caps k = Some x \<Longrightarrow> \<exists>s' caps'. k s' caps' = Some x \<and> length s' \<le> length s"
proof (induction r arbitrary: s caps k x)
  case Eps
  then show ?case by auto
next
  case (Atom a)
  then show ?case by (auto split: list.splits if_splits)
next
  case (Seq r1 r2)
  from Seq.prems have "matchRe r1 s caps (\<lambda>s' caps'. matchRe r2 s' caps' k) = Some x" by simp
  from Seq.IH(1) [OF this] obtain s1 c1 where
    m: "matchRe r2 s1 c1 k = Some x" and l: "length s1 \<le> length s" by blast
  from Seq.IH(2) [OF m] obtain s2 c2 where "k s2 c2 = Some x" "length s2 \<le> length s1" by blast
  with l show ?case by (meson order_trans)
next
  case (Alt r1 r2)
  show ?case
  proof (cases "matchRe r1 s caps k")
    case None
    then have "matchRe r2 s caps k = Some x" using Alt.prems by simp
    from Alt.IH(2) [OF this] show ?thesis .
  next
    case (Some y)
    then have "matchRe r1 s caps k = Some x" using Alt.prems by simp
    from Alt.IH(1) [OF this] show ?thesis .
  qed
next
  case (Opt r)
  let ?k = "\<lambda>s' caps'. if length s' = length s then None else k s' caps'"
  show ?case
  proof (cases "matchRe r s caps ?k")
    case None
    then have "k s caps = Some x" using Opt.prems by simp
    then show ?thesis by blast
  next
    case (Some y)
    then have "matchRe r s caps ?k = Some x" using Opt.prems by simp
    from Opt.IH [OF this] obtain s' c' where "?k s' c' = Some x" "length s' \<le> length s" by blast
    then show ?thesis by (auto split: if_splits)
  qed
next
  case (Star a)
  then show ?case using star_shorter by simp
next
  case (Group i r)
  from Group.prems have
    "matchRe r s caps (\<lambda>s' caps'. k s' ((i, take (length s - length s') s) # caps')) = Some x"
    by simp
  from Group.IH [OF this] show ?case by blast
qed

lemma matchHere_shorter: "matchHere r s = Some (caps, rest) \<Longrightarrow> length rest \<le> length s"
  unfolding matchHere_def by (drule matchRe_shorter) auto

lemma search_shorter:
  "search r s = Some (caps, start, rest) \<Longrightarrow> length rest \<le> length start \<and> length start \<le> length s"
proof (induction s)
  case Nil
  then show ?case by (auto split: option.splits dest: matchHere_shorter)
next
  case (Cons c cs)
  then show ?case by (auto split: option.splits dest: matchHere_shorter)
qed

text \<open>
  \<^verbatim>\<open>payload.matchAll(re)\<close> for a global expression: the matches from left to right, each
  search starting where the last match ended, and one character further after an empty
  match.
\<close>

function matchAll :: "regex \<Rightarrow> string \<Rightarrow> captures list" where
  "matchAll r s =
     (case search r s of
        None \<Rightarrow> []
      | Some (caps, start, rest) \<Rightarrow>
          caps # (if length rest < length start then matchAll r rest
                  else (case rest of [] \<Rightarrow> [] | c # rest' \<Rightarrow> matchAll r rest')))"
  by pat_completeness auto
termination
proof (relation "measure (\<lambda>(r, s). length s)")
  show "wf (measure (\<lambda>(r, s). length s))" by simp
next
  fix r s x2 caps y start rest
  assume "search r s = Some x2" "(caps, y) = x2" "(start, rest) = y" "length rest < length start"
  then have "search r s = Some (caps, start, rest)" by simp
  from search_shorter [OF this] \<open>length rest < length start\<close>
  show "((r, rest), (r, s)) \<in> measure (\<lambda>(r, s). length s)" by simp
next
  fix r s x2 caps y start rest c rest'
  assume "search r s = Some x2" "(caps, y) = x2" "(start, rest) = y" "rest = c # rest'"
  then have "search r s = Some (caps, start, rest)" by simp
  from search_shorter [OF this] \<open>rest = c # rest'\<close>
  show "((r, rest'), (r, s)) \<in> measure (\<lambda>(r, s). length s)" by simp
qed

declare matchAll.simps [simp del]

text \<open>Shorthands: a literal string, a sequence, and \<^verbatim>\<open>+\<close> on an atom.\<close>

fun lits :: "string \<Rightarrow> regex" where
  "lits [] = Eps"
| "lits (c # cs) = Seq (Atom (Lit c)) (lits cs)"

fun seqs :: "regex list \<Rightarrow> regex" where
  "seqs [] = Eps"
| "seqs (r # rs) = Seq r (seqs rs)"

definition Plus :: "atom \<Rightarrow> regex" where
  "Plus a = Seq (Atom a) (Star a)"

section \<open>The server map (hitomi.ts)\<close>

text \<open>
  The four expressions of \<^verbatim>\<open>parseServerMap\<close>:
  \<^verbatim>\<open>/case\s+(\d+):(?:\s*o\s*=\s*(\d+))?/g\<close>,
  \<^verbatim>\<open>/if\s+\(g\s*===?\s*(\d+)\)[\s{]*o\s*=\s*(\d+)/g\<close>,
  \<^verbatim>\<open>/(?:var\s|default:)\s*o\s*=\s*(\d+)/\<close> and
  \<^verbatim>\<open>/b:\s*["']([^"']+)["']/\<close> (the quotes are the characters 0x22 and 0x27).
\<close>

definition caseRegex :: regex where
  "caseRegex = seqs [lits ''case'', Plus WhiteSpace, Group 1 (Plus Digit), Atom (Lit CHR '':''),
     Opt (seqs [Star WhiteSpace, Atom (Lit CHR ''o''), Star WhiteSpace, Atom (Lit CHR ''=''),
                Star WhiteSpace, Group 2 (Plus Digit)])]"

definition ifRegex :: regex where
  "ifRegex = seqs [lits ''if'', Plus WhiteSpace, lits ''(g'', Star WhiteSpace, lits ''=='',
     Opt (Atom (Lit CHR ''='')), Star WhiteSpace, Group 1 (Plus Digit), Atom (Lit CHR '')''),
     Star (OneOf [WhiteSpace, Lit CHR ''{'']), Atom (Lit CHR ''o''), Star WhiteSpace,
     Atom (Lit CHR ''=''), Star WhiteSpace, Group 2 (Plus Digit)]"

definition defaultRegex :: regex where
  "defaultRegex = seqs [Alt (seqs [lits ''var'', Atom WhiteSpace]) (lits ''default:''),
     Star WhiteSpace, Atom (Lit CHR ''o''), Star WhiteSpace, Atom (Lit CHR ''=''),
     Star WhiteSpace, Group 1 (Plus Digit)]"

definition baseRegex :: regex where
  "baseRegex = seqs [lits ''b:'', Star WhiteSpace, Atom (OneOf [Lit (CHR 0x22), Lit (CHR 0x27)]),
     Group 1 (Plus (NoneOf [Lit (CHR 0x22), Lit (CHR 0x27)])),
     Atom (OneOf [Lit (CHR 0x22), Lit (CHR 0x27)])]"


text \<open>\<^verbatim>\<open>match[i]\<close>.\<close>

definition captured :: "captures \<Rightarrow> nat \<Rightarrow> string option" where
  "captured caps i = map_of caps i"

text \<open>
  \<^verbatim>\<open>Number(digits)\<close> for a string of decimal digits. The only value that is not finite is
  the \<^verbatim>\<open>Infinity\<close> of a number too large for a double (\<open>None\<close>).
\<close>

fun digitsValue :: "int \<Rightarrow> string \<Rightarrow> int" where
  "digitsValue acc [] = acc"
| "digitsValue acc (c # cs) = digitsValue (10 * acc + int (digitValue c)) cs"

definition jsNumber :: "string \<Rightarrow> int option" where
  "jsNumber ds = (let n = digitsValue 0 ds in if n < 2 ^ 1024 - 2 ^ 970 then Some n else None)"

record HitomiServerMap =
  map' :: "int \<rightharpoonup> int"
  basePath :: string
  defaultServer :: int

text \<open>
  The first loop of \<^verbatim>\<open>parseServerMap\<close>. \<open>labelKey\<close> is
  \<^verbatim>\<open>key = Number(match[1])\<close> when it is finite, and \<open>labelValue\<close> is
  \<^verbatim>\<open>value = match[2] ? Number(match[2]) : null\<close> when it is a finite number. The loop state is
  the map and the pending \<^verbatim>\<open>keys\<close>; a label with a value assigns it to every pending key
  and empties the list.
\<close>

definition labelKey :: "captures \<Rightarrow> int option" where
  "labelKey m = (case captured m 1 of None \<Rightarrow> None | Some ks \<Rightarrow> jsNumber ks)"

definition labelValue :: "captures \<Rightarrow> int option" where
  "labelValue m = (case captured m 2 of None \<Rightarrow> None | Some vs \<Rightarrow> if vs = [] then None else jsNumber vs)"

fun assignAll :: "int list \<Rightarrow> int \<Rightarrow> (int \<rightharpoonup> int) \<Rightarrow> (int \<rightharpoonup> int)" where
  "assignAll [] v m = m"
| "assignAll (k # ks) v m = assignAll ks v (m(k \<mapsto> v))"

definition caseStep :: "(int \<rightharpoonup> int) \<times> int list \<Rightarrow> captures \<Rightarrow> (int \<rightharpoonup> int) \<times> int list" where
  "caseStep st m =
     (case labelKey m of
        None \<Rightarrow> st
      | Some key \<Rightarrow>
          (let keys = snd st @ [key] in
           case labelValue m of
             Some v \<Rightarrow> (assignAll keys v (fst st), [])
           | None \<Rightarrow> (fst st, keys)))"

text \<open>The second loop: \<^verbatim>\<open>if (g === key) o = value\<close> overrides, applied to the map in order.\<close>

definition ifValue :: "captures \<Rightarrow> int option" where
  "ifValue m = (case captured m 2 of None \<Rightarrow> None | Some vs \<Rightarrow> jsNumber vs)"

definition ifStep :: "(int \<rightharpoonup> int) \<Rightarrow> captures \<Rightarrow> (int \<rightharpoonup> int)" where
  "ifStep mp m =
     (case labelKey m of
        None \<Rightarrow> mp
      | Some key \<Rightarrow> (case ifValue m of None \<Rightarrow> mp | Some v \<Rightarrow> mp(key \<mapsto> v)))"

text \<open>\<^verbatim>\<open>replace(/^\/+|\/+$/g, "")\<close>: the leading and the trailing slashes are removed.\<close>

definition stripSlashes :: "string \<Rightarrow> string" where
  "stripSlashes s = rev (dropWhile (\<lambda>c. c = CHR ''/'') (rev (dropWhile (\<lambda>c. c = CHR ''/'') s)))"

text \<open>\<^verbatim>\<open>parseServerMap(payload)\<close>; \<open>None\<close> is the \<^verbatim>\<open>null\<close> of a payload without a base path.\<close>

definition parseServerMap :: "string \<Rightarrow> HitomiServerMap option" where
  "parseServerMap payload =
     (let afterCases = fst (foldl caseStep (Map.empty, []) (matchAll caseRegex payload));
          afterIfs = foldl ifStep afterCases (matchAll ifRegex payload);
          defaultMatch = exec defaultRegex payload;
          baseMatch = exec baseRegex payload
      in case baseMatch of
           None \<Rightarrow> None
         | Some bm \<Rightarrow>
             Some \<lparr>map' = afterIfs,
                   basePath = stripSlashes (case captured bm 1 of None \<Rightarrow> [] | Some b \<Rightarrow> b),
                   defaultServer =
                     (case defaultMatch of
                        None \<Rightarrow> 0
                      | Some dm \<Rightarrow> (case (case captured dm 1 of None \<Rightarrow> None | Some d \<Rightarrow> jsNumber d) of
                                      None \<Rightarrow> 0 | Some n \<Rightarrow> n))\<rparr>)"

section \<open>Image URLs (hitomi.ts)\<close>

text \<open>
  \<^verbatim>\<open>Number.parseInt(str, 16)\<close>: leading white space is skipped, then a sign, then a
  \<^verbatim>\<open>0x\<close> or \<^verbatim>\<open>0X\<close> prefix; the longest run of hex digits that follows is the number, and
  \<open>None\<close> (\<^verbatim>\<open>NaN\<close>) when that run is empty.
\<close>

fun leadingHex :: "string \<Rightarrow> int list" where
  "leadingHex [] = []"
| "leadingHex (c # cs) = (case hexDigitValue c of None \<Rightarrow> [] | Some d \<Rightarrow> int d # leadingHex cs)"

definition parseInt16 :: "string \<Rightarrow> int option" where
  "parseInt16 str =
     (let s1 = dropWhile isWhiteSpace str;
          sign = (case s1 of [] \<Rightarrow> 1 | c # cs \<Rightarrow> if c = CHR ''-'' then - 1 else (1 :: int));
          s2 = (case s1 of [] \<Rightarrow> [] | c # cs \<Rightarrow> if c = CHR ''-'' \<or> c = CHR ''+'' then cs else s1);
          s3 = (case s2 of
                  a # b # cs \<Rightarrow> if a = CHR ''0'' \<and> (b = CHR ''x'' \<or> b = CHR ''X'') then cs else s2
                | _ \<Rightarrow> s2);
          z = leadingHex s3
      in if z = [] then None else Some (sign * foldl (\<lambda>acc d. 16 * acc + d) 0 z))"

text \<open>
  \<^verbatim>\<open>resolveHashNumber(hash)\<close>: \<^verbatim>\<open>hash.slice(-1) + hash.slice(-3, -1)\<close> read in radix 16.
\<close>

definition resolveHashNumber :: "string \<Rightarrow> int option" where
  "resolveHashNumber hash =
     (if length hash < 3 then None
      else let code = drop (length hash - 1) hash @ take 2 (drop (length hash - 3) hash)
           in parseInt16 code)"


text \<open>
  The fields of \<^verbatim>\<open>HitomiFile\<close> that the URL functions read. The flags \<^verbatim>\<open>haswebp\<close> and
  \<^verbatim>\<open>hasavif\<close> are numbers or booleans in the source and only tested for truth.
\<close>

record HitomiFile =
  name :: "string option"
  hash :: "string option"
  haswebp :: bool
  hasavif :: bool

text \<open>\<^verbatim>\<open>toLowerCase\<close> on code units below 256.\<close>

definition toLowerCase :: "string \<Rightarrow> string" where
  "toLowerCase s =
     map (\<lambda>c. let n = (of_char c :: nat) in
               if (65 \<le> n \<and> n \<le> 90) \<or> (192 \<le> n \<and> n \<le> 222 \<and> n \<noteq> 215)
               then char_of (n + 32) else c) s"

text \<open>\<^verbatim>\<open>name.split(".").pop()\<close>: what follows the last dot, or the whole name.\<close>

definition lastSegment :: "string \<Rightarrow> string" where
  "lastSegment s = rev (takeWhile (\<lambda>c. c \<noteq> CHR ''.'') (rev s))"

definition resolveHitomiExtension :: "HitomiFile \<Rightarrow> string" where
  "resolveHitomiExtension file =
     (if haswebp file then ''webp''
      else if hasavif file then ''avif''
      else let ext = lastSegment (case name file of None \<Rightarrow> [] | Some n \<Rightarrow> n)
           in if ext \<noteq> [] then toLowerCase ext else ''jpg'')"

text \<open>
  A number inside a template string: its decimal digits, with a sign when negative.
\<close>

function decimalDigits :: "int \<Rightarrow> string" where
  "decimalDigits n =
     (if n < 10 then [char_of (48 + n)]
      else decimalDigits (n div 10) @ [char_of (48 + n mod 10)])"
  by pat_completeness auto
termination
  by (relation "measure nat") auto

declare decimalDigits.simps [simp del]

definition numberToString :: "int \<Rightarrow> string" where
  "numberToString n = (if n < 0 then CHR ''-'' # decimalDigits (- n) else decimalDigits n)"

definition HITOMI_IMAGE_DOMAIN :: string where
  "HITOMI_IMAGE_DOMAIN = ''gold-usergeneratedcontent.net''"

text \<open>
  \<^verbatim>\<open>resolveHitomiImageUrl(file, serverMap, overrideExt)\<close>. The server values of the model
  are finite numbers, so of \<^verbatim>\<open>Number.isFinite(serverValue) ? serverValue + 1 : 1\<close> the first
  branch is the one taken.
\<close>

definition resolveHitomiImageUrl ::
  "HitomiFile \<Rightarrow> HitomiServerMap \<Rightarrow> string option \<Rightarrow> string option" where
  "resolveHitomiImageUrl file serverMap overrideExt =
     (case hash file of
        None \<Rightarrow> None
      | Some h \<Rightarrow>
          if h = [] then None
          else (case resolveHashNumber h of
                  None \<Rightarrow> None
                | Some hashNumber \<Rightarrow>
                    (let ext = toLowerCase (case overrideExt of
                                              Some e \<Rightarrow> e
                                            | None \<Rightarrow> resolveHitomiExtension file);
                         serverValue = (case map' serverMap hashNumber of
                                          Some v \<Rightarrow> v
                                        | None \<Rightarrow> defaultServer serverMap);
                         serverId = serverValue + 1;
                         hostPrefix = (case ext of [] \<Rightarrow> ''i'' | c # cs \<Rightarrow> [c])
                     in Some (''https://'' @ hostPrefix @ numberToString serverId @ ''.''
                              @ HITOMI_IMAGE_DOMAIN @ ''/'' @ basePath serverMap @ ''/''
                              @ numberToString hashNumber @ ''/'' @ h @ ''.'' @ ext))))"

section \<open>The cached server map (hitomi.ts)\<close>

text \<open>
  What \<^verbatim>\<open>fetch(HITOMI_GG_URL)\<close> can do: reject, or answer with an \<^verbatim>\<open>ok\<close> flag and a
  body whose text can be read (\<open>Some\<close>) or not. \<open>resolveFetch\<close> is the value of the
  promise chain \<^verbatim>\<open>.then(ok ? text() : "").then(payload ? parseServerMap(payload) : null).catch(() => null)\<close>.
\<close>

datatype fetchOutcome = FetchRejected | Response bool "string option"

definition resolveFetch :: "fetchOutcome \<Rightarrow> HitomiServerMap option" where
  "resolveFetch outcome =
     (case outcome of
        FetchRejected \<Rightarrow> None
      | Response ok body \<Rightarrow>
          if ok then (case body of
                        None \<Rightarrow> None
                      | Some payload \<Rightarrow> if payload \<noteq> [] then parseServerMap payload else None)
          else None)"

text \<open>
  The module state: the promises created so far (a promise is named by its position),
  the variable \<^verbatim>\<open>serverMapPromise\<close>, and the number of fetches started. A call of
  \<^verbatim>\<open>getHitomiServerMap\<close> runs in two steps around its \<^verbatim>\<open>await\<close>: \<open>enter\<close> up to the
  \<^verbatim>\<open>await\<close> (it returns the promise awaited), and \<open>resume\<close> once that promise is
  fulfilled (\<open>None\<close> while it is pending). \<open>settle\<close> is the network answering. Calls of
  several callers interleave at these steps.
\<close>

datatype promiseState = Pending | Fulfilled "HitomiServerMap option"

record resolverState =
  serverMapPromise :: "nat option"
  promises :: "promiseState list"
  fetches :: nat

definition getHitomiServerMap_enter :: "resolverState \<Rightarrow> nat \<times> resolverState" where
  "getHitomiServerMap_enter st =
     (case serverMapPromise st of
        None \<Rightarrow>
          (let p = length (promises st)
           in (p, st\<lparr>serverMapPromise := Some p, promises := promises st @ [Pending],
                      fetches := fetches st + 1\<rparr>))
      | Some p \<Rightarrow> (p, st))"

definition settle :: "nat \<Rightarrow> fetchOutcome \<Rightarrow> resolverState \<Rightarrow> resolverState" where
  "settle p outcome st =
     (if p < length (promises st) \<and> promises st ! p = Pending
      then st\<lparr>promises := (promises st)[p := Fulfilled (resolveFetch outcome)]\<rparr>
      else st)"

definition getHitomiServerMap_resume ::
  "nat \<Rightarrow> resolverState \<Rightarrow> (HitomiServerMap option \<times> resolverState) option" where
  "getHitomiServerMap_resume p st =
     (if p < length (promises st) then
        (case promises st ! p of
           Pending \<Rightarrow> None
         | Fulfilled resolved \<Rightarrow>
             Some (resolved, if resolved = None then st\<lparr>serverMapPromise := None\<rparr> else st))
      else None)"


text \<open>A call that runs alone: the network answers \<open>outcome\<close> if the call started a fetch.\<close>

definition getHitomiServerMap ::
  "fetchOutcome \<Rightarrow> resolverState \<Rightarrow> (HitomiServerMap option \<times> resolverState) option" where
  "getHitomiServerMap outcome st =
     (let (p, st1) = getHitomiServerMap_enter st
      in getHitomiServerMap_resume p (settle p outcome st1))"

section \<open>The bucket rule as the specification words it\<close>

text \<open>
  The specification's bucket: the last hex character followed by the two hex characters
  before it, parsed as a base-16 integer. \<open>parseHex\<close> reads a non-empty string of hex
  digits and nothing else.
\<close>

fun hexValue :: "int \<Rightarrow> string \<Rightarrow> int option" where
  "hexValue acc [] = Some acc"
| "hexValue acc (c # cs) =
     (case hexDigitValue c of None \<Rightarrow> None | Some d \<Rightarrow> hexValue (16 * acc + int d) cs)"

definition parseHex :: "string \<Rightarrow> int option" where
  "parseHex s = (if s = [] then None else hexValue 0 s)"

definition bucketOfSpec :: "string \<Rightarrow> int option" where
  "bucketOfSpec h =
     parseHex ([last h] @ [h ! (length h - 3), h ! (length h - 2)])"

section \<open>Sample data\<close>

text \<open>
  Two routing payloads of the shape of the remote script, the second with an
  \<^verbatim>\<open>if (g === 2) o = 9\<close> override added, and a gallery file with a given hash.
\<close>

definition ggPayload :: string where
  "ggPayload = ''gg = { m: function(g) { var o = 0; switch (g) { case 1: case 2: case 3: o = 5; break; } return o; }, b: ''
       @ [CHR 0x27] @ ''1700000000/'' @ [CHR 0x27] @ '' };''"

definition ggPayloadIf :: string where
  "ggPayloadIf = ''gg = { m: function(g) { var o = 0; switch (g) { case 1: case 2: case 3: o = 5; break; } if (g === 2) o = 9; return o; }, b: ''
       @ [CHR 0x27] @ ''1700000000/'' @ [CHR 0x27] @ '' };''"

definition pageFile :: "string \<Rightarrow> HitomiFile" where
  "pageFile h = \<lparr>name = Some ''001.jpg'', hash = Some h, haswebp = True, hasavif = False\<rparr>"

section \<open>Lemmas about the server map and the URL functions\<close>

lemma assignAll_other: "key \<notin> set ks \<Longrightarrow> assignAll ks v m key = m key"
  by (induction ks arbitrary: m) auto

lemma assignAll_hit: "key \<in> set ks \<Longrightarrow> assignAll ks v m key = Some v"
proof (induction ks arbitrary: m)
  case Nil
  then show ?case by simp
next
  case (Cons k ks)
  show ?case
  proof (cases "key \<in> set ks")
    case True
    then show ?thesis using Cons.IH by simp
  next
    case False
    then have "key = k" using Cons.prems by simp
    then show ?thesis using False by (simp add: assignAll_other)
  qed
qed

text \<open>A run of labels without an assignment only grows the pending list.\<close>

lemma caseLoop_pending:
  "\<forall>m \<in> set run. labelValue m = None \<Longrightarrow>
   foldl caseStep (mp, keys) run = (mp, keys @ List.map_filter labelKey run)"
proof (induction run arbitrary: keys)
  case Nil
  then show ?case by (simp add: List.map_filter_simps)
next
  case (Cons m run)
  then have v: "labelValue m = None" and rest: "\<forall>m \<in> set run. labelValue m = None" by simp_all
  show ?case
  proof (cases "labelKey m")
    case None
    then have "caseStep (mp, keys) m = (mp, keys)" by (simp add: caseStep_def)
    then show ?thesis using Cons.IH [OF rest] None by (simp add: List.map_filter_simps)
  next
    case (Some key)
    then have "caseStep (mp, keys) m = (mp, keys @ [key])" using v by (simp add: caseStep_def)
    then show ?thesis using Cons.IH [OF rest] Some by (simp add: List.map_filter_simps)
  qed
qed

text \<open>Labels of other keys leave a key that is not pending as it is.\<close>

lemma caseLoop_other:
  "key \<notin> set keys \<Longrightarrow> \<forall>m \<in> set post. labelKey m \<noteq> Some key \<Longrightarrow>
   fst (foldl caseStep (mp, keys) post) key = mp key"
proof (induction post arbitrary: mp keys)
  case Nil
  then show ?case by simp
next
  case (Cons m post)
  then have rest: "\<forall>m \<in> set post. labelKey m \<noteq> Some key" and here: "labelKey m \<noteq> Some key"
    by simp_all
  show ?case
  proof (cases "labelKey m")
    case None
    then have "caseStep (mp, keys) m = (mp, keys)" by (simp add: caseStep_def)
    then show ?thesis using Cons.IH [OF Cons.prems(1) rest] by simp
  next
    case (Some k)
    then have ne: "k \<noteq> key" using here by auto
    show ?thesis
    proof (cases "labelValue m")
      case None
      then have "caseStep (mp, keys) m = (mp, keys @ [k])" using Some by (simp add: caseStep_def)
      moreover have "key \<notin> set (keys @ [k])" using Cons.prems(1) ne by simp
      ultimately show ?thesis using Cons.IH [OF _ rest] by simp
    next
      case v: (Some v)
      then have "caseStep (mp, keys) m = (assignAll (keys @ [k]) v mp, [])"
        using Some by (simp add: caseStep_def)
      moreover have "key \<notin> set (keys @ [k])" using Cons.prems(1) ne by simp
      moreover have "key \<notin> set []" by simp
      ultimately show ?thesis using Cons.IH [OF \<open>key \<notin> set []\<close> rest] by (simp add: assignAll_other)
    qed
  qed
qed

text \<open>The fallthrough pass: a run of labels, then a label with an assignment.\<close>

lemma caseLoop_fallthrough:
  assumes run: "\<forall>m \<in> set run. labelValue m = None"
    and k: "labelKey c = Some k" and v: "labelValue c = Some v"
    and key: "key = k \<or> key \<in> set (List.map_filter labelKey run)"
    and post: "\<forall>m \<in> set post. labelKey m \<noteq> Some key"
  shows "fst (foldl caseStep (Map.empty, []) (pre @ run @ [c] @ post)) key = Some v"
proof -
  obtain mp keys where pre: "foldl caseStep (Map.empty, []) pre = (mp, keys)" by (cases "foldl caseStep (Map.empty, []) pre")
  let ?pending = "keys @ List.map_filter labelKey run"
  have a: "foldl caseStep (Map.empty, []) (pre @ run) = (mp, ?pending)"
    using pre caseLoop_pending [OF run] by simp
  have b: "caseStep (mp, ?pending) c = (assignAll (?pending @ [k]) v mp, [])"
    using k v by (simp add: caseStep_def)
  have c: "foldl caseStep (Map.empty, []) (pre @ run @ [c]) = (assignAll (?pending @ [k]) v mp, [])"
    using a b by simp
  have "key \<in> set (?pending @ [k])" using key by auto
  then have hit: "assignAll (?pending @ [k]) v mp key = Some v" by (rule assignAll_hit)
  have "fst (foldl caseStep (assignAll (?pending @ [k]) v mp, []) post) key
        = assignAll (?pending @ [k]) v mp key"
    using post by (intro caseLoop_other) simp_all
  moreover have "foldl caseStep (Map.empty, []) (pre @ run @ [c] @ post)
        = foldl caseStep (assignAll (?pending @ [k]) v mp, []) post"
    using c by (simp only: foldl_append append_assoc [symmetric])
  ultimately show ?thesis using hit by simp
qed

lemma ifLoop_other:
  "\<forall>m \<in> set ifs. labelKey m \<noteq> Some key \<Longrightarrow> foldl ifStep mp ifs key = mp key"
proof (induction ifs arbitrary: mp)
  case Nil
  then show ?case by simp
next
  case (Cons m ifs)
  then have "ifStep mp m key = mp key"
    by (auto simp: ifStep_def split: option.splits)
  then show ?case using Cons by simp
qed

lemma ifLoop_override:
  assumes "labelKey c = Some k" and "ifValue c = Some v"
    and "\<forall>m \<in> set ipost. labelKey m \<noteq> Some k"
  shows "foldl ifStep mp (ipre @ [c] @ ipost) k = Some v"
proof -
  have "ifStep (foldl ifStep mp ipre) c k = Some v"
    using assms(1,2) by (simp add: ifStep_def)
  moreover have "foldl ifStep (ifStep (foldl ifStep mp ipre) c) ipost k
      = ifStep (foldl ifStep mp ipre) c k"
    using assms(3) by (rule ifLoop_other)
  ultimately show ?thesis by simp
qed

lemma parseServerMap_map:
  "parseServerMap payload = Some sm \<Longrightarrow>
   map' sm = foldl ifStep (fst (foldl caseStep (Map.empty, []) (matchAll caseRegex payload)))
                (matchAll ifRegex payload)"
  by (auto simp: parseServerMap_def Let_def split: option.splits)

lemma hexDigit_facts:
  assumes "hexDigitValue c = Some d"
  shows "\<not> isWhiteSpace c" and "c \<noteq> CHR ''-''" and "c \<noteq> CHR ''+''"
    and "c \<noteq> CHR ''x''" and "c \<noteq> CHR ''X''" and "d < 16"
proof -
  show "\<not> isWhiteSpace c"
    using assms by (auto simp: hexDigitValue_def isWhiteSpace_def Let_def split: if_splits)
  show "c \<noteq> CHR ''-''" using assms by (auto simp: hexDigitValue_def)
  show "c \<noteq> CHR ''+''" using assms by (auto simp: hexDigitValue_def)
  show "c \<noteq> CHR ''x''" using assms by (auto simp: hexDigitValue_def)
  show "c \<noteq> CHR ''X''" using assms by (auto simp: hexDigitValue_def)
  show "d < 16" using assms by (auto simp: hexDigitValue_def Let_def split: if_splits)
qed

lemma parseInt16_hex3:
  assumes x: "hexDigitValue x = Some dx" and y: "hexDigitValue y = Some dy"
    and z: "hexDigitValue z = Some dz"
  shows "parseInt16 [z, x, y] = Some (256 * int dz + 16 * int dx + int dy)"
proof -
  have s1: "dropWhile isWhiteSpace [z, x, y] = [z, x, y]"
    using hexDigit_facts(1) [OF z] by simp
  have sign: "(case [z, x, y] of [] \<Rightarrow> 1 | c # cs \<Rightarrow> if c = CHR ''-'' then - 1 else (1 :: int)) = 1"
    using hexDigit_facts(2) [OF z] by simp
  have s2: "(case [z, x, y] of [] \<Rightarrow> [] | c # cs \<Rightarrow>
               if c = CHR ''-'' \<or> c = CHR ''+'' then cs else [z, x, y]) = [z, x, y]"
    using hexDigit_facts(2,3) [OF z] by simp
  have s3: "(case [z, x, y] of
               a # b # cs \<Rightarrow> if a = CHR ''0'' \<and> (b = CHR ''x'' \<or> b = CHR ''X'') then cs else [z, x, y]
             | _ \<Rightarrow> [z, x, y]) = [z, x, y]"
    using hexDigit_facts(4,5) [OF x] by simp
  have lh: "leadingHex [z, x, y] = [int dz, int dx, int dy]"
    using x y z by simp
  show ?thesis
    unfolding parseInt16_def Let_def s1 sign s2 s3 lh by simp
qed


lemma length_three: "length (xs :: 'a list) = 3 \<Longrightarrow> \<exists>x y z. xs = [x, y, z]"
  by (auto simp: numeral_3_eq_3 length_Suc_conv)

lemma last_three:
  assumes "3 \<le> length h"
  shows "\<exists>pre x y z. h = pre @ [x, y, z]"
proof -
  let ?n = "length h - 3"
  have "length (drop ?n h) = 3" using assms by simp
  then obtain x y z where "drop ?n h = [x, y, z]"
    using length_three by blast
  moreover have "h = take ?n h @ drop ?n h" by simp
  ultimately have "h = take ?n h @ [x, y, z]" by simp
  then show ?thesis by blast
qed

lemma resolveHashNumber_split:
  "resolveHashNumber (pre @ [x, y, z]) = parseInt16 [z, x, y]"
  by (simp add: resolveHashNumber_def)

lemma bucketOfSpec_split:
  "bucketOfSpec (pre @ [x, y, z]) = parseHex [z, x, y]"
  by (simp add: bucketOfSpec_def nth_append)


lemma resolveHashNumber_nonempty: "resolveHashNumber h = Some b \<Longrightarrow> h \<noteq> []"
  by (auto simp: resolveHashNumber_def)


lemma parseServerMap_Some:
  assumes "exec baseRegex payload = Some bm"
  shows "\<exists>sm. parseServerMap payload = Some sm \<and> basePath sm = stripSlashes (case captured bm 1 of None \<Rightarrow> [] | Some b \<Rightarrow> b)
     \<and> defaultServer sm = (case exec defaultRegex payload of
                        None \<Rightarrow> 0
                      | Some dm \<Rightarrow> (case (case captured dm 1 of None \<Rightarrow> None | Some d \<Rightarrow> jsNumber d) of
                                      None \<Rightarrow> 0 | Some n \<Rightarrow> n))"
  using assms by (simp add: parseServerMap_def Let_def)

lemma case_matches:
  "matchAll caseRegex ggPayload = [[(1, ''1'')], [(1, ''2'')], [(2, ''5''), (1, ''3'')]]"
  "matchAll caseRegex ggPayloadIf = [[(1, ''1'')], [(1, ''2'')], [(2, ''5''), (1, ''3'')]]"
  "matchAll ifRegex ggPayload = []"
  "matchAll ifRegex ggPayloadIf = [[(2, ''9''), (1, ''2'')]]"
  "exec baseRegex ggPayload = Some [(1, ''1700000000/'')]"
  "exec baseRegex ggPayloadIf = Some [(1, ''1700000000/'')]"
  "exec defaultRegex ggPayload = Some [(1, ''0'')]"
  "exec defaultRegex ggPayloadIf = Some [(1, ''0'')]"
  by code_simp+

lemma label_values:
  "labelKey [(1, ''1'')] = Some 1" "labelValue [(1, ''1'')] = None"
  "labelKey [(1, ''2'')] = Some 2" "labelValue [(1, ''2'')] = None"
  "labelKey [(2, ''5''), (1, ''3'')] = Some 3" "labelValue [(2, ''5''), (1, ''3'')] = Some 5"
  "labelKey [(2, ''9''), (1, ''2'')] = Some 2" "ifValue [(2, ''9''), (1, ''2'')] = Some 9"
  by code_simp+

lemma bucket_examples:
  "resolveHashNumber ''abc010'' = Some 1" "resolveHashNumber ''abc020'' = Some 2"
  "resolveHashNumber ''abc030'' = Some 3"
  by code_simp+


lemma gg_lookups:
  "(case parseServerMap ggPayload of None \<Rightarrow> [] | Some sm \<Rightarrow> map (map' sm) [1, 2, 3])
     = [Some 5, Some 5, Some 5]"
  "(case parseServerMap ggPayloadIf of None \<Rightarrow> [] | Some sm \<Rightarrow> map (map' sm) [1, 2, 3])
     = [Some 5, Some 9, Some 5]"
  by code_simp+

lemma gg_urls:
  "(case parseServerMap ggPayload of None \<Rightarrow> []
    | Some sm \<Rightarrow> map (\<lambda>h. resolveHitomiImageUrl (pageFile h) sm None) [''abc010'', ''abc020'', ''abc030''])
     = [Some ''https://w6.gold-usergeneratedcontent.net/1700000000/1/abc010.webp'',
        Some ''https://w6.gold-usergeneratedcontent.net/1700000000/2/abc020.webp'',
        Some ''https://w6.gold-usergeneratedcontent.net/1700000000/3/abc030.webp'']"
  "(case parseServerMap ggPayloadIf of None \<Rightarrow> []
    | Some sm \<Rightarrow> map (\<lambda>h. resolveHitomiImageUrl (pageFile h) sm None) [''abc010'', ''abc020'', ''abc030''])
     = [Some ''https://w6.gold-usergeneratedcontent.net/1700000000/1/abc010.webp'',
        Some ''https://w10.gold-usergeneratedcontent.net/1700000000/2/abc020.webp'',
        Some ''https://w6.gold-usergeneratedcontent.net/1700000000/3/abc030.webp'']"
  by code_simp+


section \<open>Claims about the server map and the image URLs\<close>

text \<open>
  C4 (bucket derivation). For every hash of length at least 3 whose last three characters
  are hex digits, the bucket computed by \<^verbatim>\<open>resolveHashNumber\<close> is the base-16 value of the
  last hex character followed by the two hex characters before it; it lies between 0 and
  4095. For the hash \<^verbatim>\<open>abc123\<close> the bucket is the value of \<^verbatim>\<open>3\<close> followed by \<^verbatim>\<open>12\<close>, 0x312.
\<close>

theorem bucket_derivation:
  assumes "3 \<le> length h"
    and "\<forall>c \<in> set (drop (length h - 3) h). hexDigitValue c \<noteq> None"
  shows "resolveHashNumber h = bucketOfSpec h
       \<and> (\<exists>b. resolveHashNumber h = Some b \<and> 0 \<le> b \<and> b < 4096)
       \<and> resolveHashNumber ''abc123'' = parseHex (''3'' @ ''12'')
       \<and> resolveHashNumber ''abc123'' = Some 0x312"
proof -
  from last_three [OF assms(1)] obtain pre x y z where h: "h = pre @ [x, y, z]" by blast
  have "drop (length h - 3) h = [x, y, z]" using h by simp
  then have "hexDigitValue x \<noteq> None" "hexDigitValue y \<noteq> None" "hexDigitValue z \<noteq> None"
    using assms(2) by simp_all
  then obtain dx dy dz where d: "hexDigitValue x = Some dx" "hexDigitValue y = Some dy"
    "hexDigitValue z = Some dz" by blast
  have code: "resolveHashNumber h = Some (256 * int dz + 16 * int dx + int dy)"
    unfolding h resolveHashNumber_split using d by (rule parseInt16_hex3)
  have spec: "bucketOfSpec h = Some (256 * int dz + 16 * int dx + int dy)"
    unfolding h bucketOfSpec_split using d by (simp add: parseHex_def)
  have "dx < 16" "dy < 16" "dz < 16" using d hexDigit_facts(6) by blast+
  then have range: "0 \<le> 256 * int dz + 16 * int dx + int dy \<and> 256 * int dz + 16 * int dx + int dy < 4096"
    by simp
  have ex1: "resolveHashNumber ''abc123'' = parseHex (''3'' @ ''12'')" by code_simp
  have ex2: "resolveHashNumber ''abc123'' = Some 0x312" by code_simp
  show ?thesis using code spec range ex1 ex2 by simp
qed

theorem bucket_derivation_witness:
  "3 \<le> length ''0f9e8d7c6b5a4e3f''
   \<and> resolveHashNumber ''0f9e8d7c6b5a4e3f'' = bucketOfSpec ''0f9e8d7c6b5a4e3f''
   \<and> resolveHashNumber ''0f9e8d7c6b5a4e3f'' = Some 0xfe3"
proof -
  have a: "3 \<le> length ''0f9e8d7c6b5a4e3f''" by simp
  have b: "\<forall>c \<in> set (drop (length ''0f9e8d7c6b5a4e3f'' - 3) ''0f9e8d7c6b5a4e3f''). hexDigitValue c \<noteq> None"
    by (simp add: hexDigitValue_def)
  have c: "resolveHashNumber ''0f9e8d7c6b5a4e3f'' = Some 0xfe3" by code_simp
  from bucket_derivation [OF a b] a c show ?thesis by blast
qed

text \<open>
  C5 (fallthrough parsing with overrides). In the map that \<^verbatim>\<open>parseServerMap\<close> returns,
  every case label of a run without an assignment, and the label that carries the next
  assignment, map to that assignment's value (as long as no later label or override names
  the bucket again); an \<^verbatim>\<open>if\<close> override is applied after the case pass and decides its
  bucket (the last override of a bucket wins). For the payload with
  \<^verbatim>\<open>case 1: case 2: case 3: o = 5\<close> the buckets 1, 2 and 3 map to 5 and their URLs name
  server 6; with \<^verbatim>\<open>if (g === 2) o = 9\<close> added, bucket 2 maps to 9 and resolves to server
  10 while buckets 1 and 3 stay at 6.
\<close>

theorem fallthrough_with_overrides:
  "(parseServerMap payload = Some sm \<and> matchAll caseRegex payload = pre @ run @ [c] @ post
      \<and> (\<forall>m \<in> set run. labelValue m = None) \<and> labelKey c = Some k \<and> labelValue c = Some v
      \<and> (key = k \<or> key \<in> set (List.map_filter labelKey run))
      \<and> (\<forall>m \<in> set post. labelKey m \<noteq> Some key)
      \<and> (\<forall>m \<in> set (matchAll ifRegex payload). labelKey m \<noteq> Some key)
     \<longrightarrow> map' sm key = Some v)
   \<and> (parseServerMap payload = Some sm \<and> matchAll ifRegex payload = ipre @ [ic] @ ipost
      \<and> labelKey ic = Some ik \<and> ifValue ic = Some iv \<and> (\<forall>m \<in> set ipost. labelKey m \<noteq> Some ik)
     \<longrightarrow> map' sm ik = Some iv)
   \<and> (\<exists>sm1. parseServerMap ggPayload = Some sm1
         \<and> map' sm1 1 = Some 5 \<and> map' sm1 2 = Some 5 \<and> map' sm1 3 = Some 5
         \<and> resolveHitomiImageUrl (pageFile ''abc010'') sm1 None
             = Some ''https://w6.gold-usergeneratedcontent.net/1700000000/1/abc010.webp''
         \<and> resolveHitomiImageUrl (pageFile ''abc020'') sm1 None
             = Some ''https://w6.gold-usergeneratedcontent.net/1700000000/2/abc020.webp''
         \<and> resolveHitomiImageUrl (pageFile ''abc030'') sm1 None
             = Some ''https://w6.gold-usergeneratedcontent.net/1700000000/3/abc030.webp'')
   \<and> (\<exists>sm2. parseServerMap ggPayloadIf = Some sm2
         \<and> map' sm2 1 = Some 5 \<and> map' sm2 2 = Some 9 \<and> map' sm2 3 = Some 5
         \<and> resolveHitomiImageUrl (pageFile ''abc010'') sm2 None
             = Some ''https://w6.gold-usergeneratedcontent.net/1700000000/1/abc010.webp''
         \<and> resolveHitomiImageUrl (pageFile ''abc020'') sm2 None
             = Some ''https://w10.gold-usergeneratedcontent.net/1700000000/2/abc020.webp''
         \<and> resolveHitomiImageUrl (pageFile ''abc030'') sm2 None
             = Some ''https://w6.gold-usergeneratedcontent.net/1700000000/3/abc030.webp'')"
proof (intro conjI impI)
  assume a: "parseServerMap payload = Some sm \<and> matchAll caseRegex payload = pre @ run @ [c] @ post
      \<and> (\<forall>m \<in> set run. labelValue m = None) \<and> labelKey c = Some k \<and> labelValue c = Some v
      \<and> (key = k \<or> key \<in> set (List.map_filter labelKey run))
      \<and> (\<forall>m \<in> set post. labelKey m \<noteq> Some key)
      \<and> (\<forall>m \<in> set (matchAll ifRegex payload). labelKey m \<noteq> Some key)"
  then have m: "map' sm = foldl ifStep (fst (foldl caseStep (Map.empty, []) (pre @ run @ [c] @ post)))
                (matchAll ifRegex payload)"
    using parseServerMap_map [of payload sm] by simp
  have "fst (foldl caseStep (Map.empty, []) (pre @ run @ [c] @ post)) key = Some v"
    using a by (intro caseLoop_fallthrough) blast+
  moreover have "foldl ifStep (fst (foldl caseStep (Map.empty, []) (pre @ run @ [c] @ post)))
                (matchAll ifRegex payload) key
      = fst (foldl caseStep (Map.empty, []) (pre @ run @ [c] @ post)) key"
    using a by (intro ifLoop_other) blast
  ultimately show "map' sm key = Some v" using m by simp
next
  assume a: "parseServerMap payload = Some sm \<and> matchAll ifRegex payload = ipre @ [ic] @ ipost
      \<and> labelKey ic = Some ik \<and> ifValue ic = Some iv \<and> (\<forall>m \<in> set ipost. labelKey m \<noteq> Some ik)"
  then have m: "map' sm = foldl ifStep (fst (foldl caseStep (Map.empty, []) (matchAll caseRegex payload)))
                (ipre @ [ic] @ ipost)"
    using parseServerMap_map [of payload sm] by simp
  have "foldl ifStep (fst (foldl caseStep (Map.empty, []) (matchAll caseRegex payload)))
                (ipre @ [ic] @ ipost) ik = Some iv"
    using a by (intro ifLoop_override) blast+
  then show "map' sm ik = Some iv" using m by simp
next
  from parseServerMap_Some [OF case_matches(5)] obtain sm1 where
    sm1: "parseServerMap ggPayload = Some sm1" by blast
  show "\<exists>sm1. parseServerMap ggPayload = Some sm1
         \<and> map' sm1 1 = Some 5 \<and> map' sm1 2 = Some 5 \<and> map' sm1 3 = Some 5
         \<and> resolveHitomiImageUrl (pageFile ''abc010'') sm1 None
             = Some ''https://w6.gold-usergeneratedcontent.net/1700000000/1/abc010.webp''
         \<and> resolveHitomiImageUrl (pageFile ''abc020'') sm1 None
             = Some ''https://w6.gold-usergeneratedcontent.net/1700000000/2/abc020.webp''
         \<and> resolveHitomiImageUrl (pageFile ''abc030'') sm1 None
             = Some ''https://w6.gold-usergeneratedcontent.net/1700000000/3/abc030.webp''"
    using gg_lookups(1) gg_urls(1) sm1 by (intro exI [of _ sm1]) simp
next
  from parseServerMap_Some [OF case_matches(6)] obtain sm2 where
    sm2: "parseServerMap ggPayloadIf = Some sm2" by blast
  show "\<exists>sm2. parseServerMap ggPayloadIf = Some sm2
         \<and> map' sm2 1 = Some 5 \<and> map' sm2 2 = Some 9 \<and> map' sm2 3 = Some 5
         \<and> resolveHitomiImageUrl (pageFile ''abc010'') sm2 None
             = Some ''https://w6.gold-usergeneratedcontent.net/1700000000/1/abc010.webp''
         \<and> resolveHitomiImageUrl (pageFile ''abc020'') sm2 None
             = Some ''https://w10.gold-usergeneratedcontent.net/1700000000/2/abc020.webp''
         \<and> resolveHitomiImageUrl (pageFile ''abc030'') sm2 None
             = Some ''https://w6.gold-usergeneratedcontent.net/1700000000/3/abc030.webp''"
    using gg_lookups(2) gg_urls(2) sm2 by (intro exI [of _ sm2]) simp
qed

theorem fallthrough_with_overrides_witness:
  "\<exists>sm. parseServerMap ggPayloadIf = Some sm
     \<and> matchAll caseRegex ggPayloadIf = [[(1, ''1'')], [(1, ''2'')], [(2, ''5''), (1, ''3'')]]
     \<and> matchAll ifRegex ggPayloadIf = [[(2, ''9''), (1, ''2'')]]
     \<and> map' sm 1 = Some 5 \<and> map' sm 3 = Some 5 \<and> map' sm 2 = Some 9"
proof -
  from parseServerMap_Some [OF case_matches(6)] obtain sm where
    sm: "parseServerMap ggPayloadIf = Some sm" by blast
  have cm: "matchAll caseRegex ggPayloadIf = [] @ [[(1, ''1'')], [(1, ''2'')]] @ [[(2, ''5''), (1, ''3'')]] @ []"
    using case_matches(2) by simp
  have im: "matchAll ifRegex ggPayloadIf = [] @ [[(2, ''9''), (1, ''2'')]] @ []"
    using case_matches(4) by simp
  have run: "\<forall>m \<in> set [[(1, ''1'')], [(1, ''2'')]]. labelValue m = None"
    using label_values by simp
  have keys: "List.map_filter labelKey [[(1, ''1'')], [(1, ''2'')]] = [1, 2]"
    using label_values by (simp add: List.map_filter_simps)
  have noif1: "\<forall>m \<in> set (matchAll ifRegex ggPayloadIf). labelKey m \<noteq> Some 1"
    and noif3: "\<forall>m \<in> set (matchAll ifRegex ggPayloadIf). labelKey m \<noteq> Some 3"
    using case_matches(4) label_values by simp_all
  note T = fallthrough_with_overrides [where payload = ggPayloadIf and sm = sm and pre = "[]"
      and run = "[[(1, ''1'')], [(1, ''2'')]]" and c = "[(2, ''5''), (1, ''3'')]" and post = "[]"
      and k = 3 and v = 5 and ipre = "[]" and ic = "[(2, ''9''), (1, ''2'')]" and ipost = "[]"
      and ik = 2 and iv = 9]
  have "map' sm 1 = Some 5"
    using T [where key = 1] sm cm run keys noif1 label_values by simp
  moreover have "map' sm 3 = Some 5"
    using T [where key = 3] sm cm run keys noif3 label_values by simp
  moreover have "map' sm 2 = Some 9"
    using T [where key = 1] sm im label_values by simp
  ultimately show ?thesis using sm case_matches(2,4) by blast
qed

text \<open>
  C6 (URL resolution). For a file with a derivable hash and a non-empty target extension
  (the override, or else the file's own, in lower case), \<^verbatim>\<open>resolveHitomiImageUrl\<close> looks
  the bucket up in the map, falls back to the default server when it is absent, adds one,
  and returns exactly
  \<^verbatim>\<open>https://{extLetter}{serverIndex}.gold-usergeneratedcontent.net/{basePath}/{bucket}/{hash}.{ext}\<close>
  where \<open>extLetter\<close> is the first character of the extension.
\<close>

theorem url_resolution:
  assumes "hash file = Some h" and "resolveHashNumber h = Some bucket"
    and "ext = toLowerCase (case overrideExt of Some e \<Rightarrow> e | None \<Rightarrow> resolveHitomiExtension file)"
    and "ext \<noteq> []"
  shows "resolveHitomiImageUrl file serverMap overrideExt =
           Some (''https://'' @ [hd ext]
                 @ numberToString ((case map' serverMap bucket of
                                      Some v \<Rightarrow> v
                                    | None \<Rightarrow> defaultServer serverMap) + 1)
                 @ ''.'' @ ''gold-usergeneratedcontent.net'' @ ''/'' @ basePath serverMap @ ''/''
                 @ numberToString bucket @ ''/'' @ h @ ''.'' @ ext)"
proof -
  have h: "h \<noteq> []" using assms(2) by (rule resolveHashNumber_nonempty)
  obtain c cs where ccs: "ext = c # cs"
    using assms(4) by (cases ext) auto
  then have ext: "toLowerCase (case overrideExt of Some e \<Rightarrow> e | None \<Rightarrow> resolveHitomiExtension file) = c # cs"
    using assms(3) by simp
  show ?thesis
    unfolding resolveHitomiImageUrl_def Let_def ext ccs
    using assms(1,2) h by (simp add: HITOMI_IMAGE_DOMAIN_def)
qed


theorem url_resolution_witness:
  "resolveHitomiImageUrl \<lparr>name = Some ''001.JPG'', hash = Some ''abc123'', haswebp = False, hasavif = True\<rparr>
      \<lparr>map' = [786 \<mapsto> 4], basePath = ''1700000000'', defaultServer = 0\<rparr> (Some ''webp'')
     = Some ''https://w5.gold-usergeneratedcontent.net/1700000000/786/abc123.webp''
   \<and> resolveHitomiImageUrl \<lparr>name = Some ''001.JPG'', hash = Some ''abc123'', haswebp = False, hasavif = True\<rparr>
      \<lparr>map' = Map.empty, basePath = ''1700000000'', defaultServer = 2\<rparr> None
     = Some ''https://a3.gold-usergeneratedcontent.net/1700000000/786/abc123.avif''"
proof -
  let ?file = "\<lparr>name = Some ''001.JPG'', hash = Some ''abc123'', haswebp = False, hasavif = True\<rparr>"
  have b: "resolveHashNumber ''abc123'' = Some 786" by code_simp
  have e1: "toLowerCase ''webp'' = ''webp''" by code_simp
  have e2: "toLowerCase (resolveHitomiExtension ?file) = ''avif''" by code_simp
  have n: "numberToString 786 = ''786''" "numberToString 5 = ''5''" "numberToString 3 = ''3''"
    by code_simp+
  have "resolveHitomiImageUrl ?file \<lparr>map' = [786 \<mapsto> 4], basePath = ''1700000000'', defaultServer = 0\<rparr> (Some ''webp'')
     = Some ''https://w5.gold-usergeneratedcontent.net/1700000000/786/abc123.webp''"
    using url_resolution [of ?file "''abc123''" 786 "''webp''" "Some ''webp''"
        "\<lparr>map' = [786 \<mapsto> 4], basePath = ''1700000000'', defaultServer = 0\<rparr>"] b e1 n
    by simp
  moreover have "resolveHitomiImageUrl ?file \<lparr>map' = Map.empty, basePath = ''1700000000'', defaultServer = 2\<rparr> None
     = Some ''https://a3.gold-usergeneratedcontent.net/1700000000/786/abc123.avif''"
    using url_resolution [of ?file "''abc123''" 786 "''avif''" None
        "\<lparr>map' = Map.empty, basePath = ''1700000000'', defaultServer = 2\<rparr>"] b e2 n
    by simp
  ultimately show ?thesis by simp
qed


text \<open>
  C9 (server map cache). A call on an empty cache starts one fetch and returns what the
  fetch resolves to; the promise stays cached exactly when that is a server map. With a
  fulfilled, successful promise cached, a call returns the same map and leaves the state
  as it is, so no later caller fetches again. Resuming on a failed promise clears the
  cache, and a fetch error, a response that is not ok, a body that cannot be read and an
  unparseable payload all count as failed; the next call then fetches afresh (first
  part). Two callers that enter while no promise is cached await the same promise, and one
  fetch is started.
\<close>

theorem server_map_cache:
  "(serverMapPromise st = None \<longrightarrow>
      getHitomiServerMap outcome st
        = Some (resolveFetch outcome,
                st\<lparr>serverMapPromise := (if resolveFetch outcome = None then None
                                          else Some (length (promises st))),
                    promises := promises st @ [Fulfilled (resolveFetch outcome)],
                    fetches := fetches st + 1\<rparr>))
   \<and> (serverMapPromise st = Some p \<and> p < length (promises st)
        \<and> promises st ! p = Fulfilled (Some sm)
      \<longrightarrow> getHitomiServerMap_enter st = (p, st)
        \<and> getHitomiServerMap_resume p st = Some (Some sm, st)
        \<and> getHitomiServerMap outcome st = Some (Some sm, st))
   \<and> (p < length (promises st) \<and> promises st ! p = Fulfilled None
      \<longrightarrow> getHitomiServerMap_resume p st = Some (None, st\<lparr>serverMapPromise := None\<rparr>))
   \<and> resolveFetch FetchRejected = None
   \<and> resolveFetch (Response False body) = None
   \<and> resolveFetch (Response True None) = None
   \<and> (parseServerMap payload = None \<longrightarrow> resolveFetch (Response True (Some payload)) = None)
   \<and> (serverMapPromise st = None
      \<longrightarrow> (let (p1, st1) = getHitomiServerMap_enter st;
               (p2, st2) = getHitomiServerMap_enter st1
           in p1 = p2 \<and> st2 = st1 \<and> fetches st2 = fetches st + 1
              \<and> p1 < length (promises st2) \<and> promises st2 ! p1 = Pending))"
proof (intro conjI impI)
  assume "serverMapPromise st = None"
  then show "getHitomiServerMap outcome st
        = Some (resolveFetch outcome,
                st\<lparr>serverMapPromise := (if resolveFetch outcome = None then None
                                          else Some (length (promises st))),
                    promises := promises st @ [Fulfilled (resolveFetch outcome)],
                    fetches := fetches st + 1\<rparr>)"
    by (simp add: getHitomiServerMap_def getHitomiServerMap_enter_def settle_def
        getHitomiServerMap_resume_def Let_def)
next
  assume a: "serverMapPromise st = Some p \<and> p < length (promises st)
        \<and> promises st ! p = Fulfilled (Some sm)"
  then show e: "getHitomiServerMap_enter st = (p, st)" by (simp add: getHitomiServerMap_enter_def)
  from a show r: "getHitomiServerMap_resume p st = Some (Some sm, st)"
    by (simp add: getHitomiServerMap_resume_def)
  from a have "settle p outcome st = st" by (simp add: settle_def)
  then show "getHitomiServerMap outcome st = Some (Some sm, st)"
    using e r by (simp add: getHitomiServerMap_def)
next
  assume "p < length (promises st) \<and> promises st ! p = Fulfilled None"
  then show "getHitomiServerMap_resume p st = Some (None, st\<lparr>serverMapPromise := None\<rparr>)"
    by (simp add: getHitomiServerMap_resume_def)
next
  show "resolveFetch FetchRejected = None" by (simp add: resolveFetch_def)
  show "resolveFetch (Response False body) = None" by (simp add: resolveFetch_def)
  show "resolveFetch (Response True None) = None" by (simp add: resolveFetch_def)
next
  assume "parseServerMap payload = None"
  then show "resolveFetch (Response True (Some payload)) = None" by (simp add: resolveFetch_def)
next
  assume "serverMapPromise st = None"
  then show "let (p1, st1) = getHitomiServerMap_enter st;
               (p2, st2) = getHitomiServerMap_enter st1
           in p1 = p2 \<and> st2 = st1 \<and> fetches st2 = fetches st + 1
              \<and> p1 < length (promises st2) \<and> promises st2 ! p1 = Pending"
    by (simp add: getHitomiServerMap_enter_def Let_def)
qed

theorem server_map_cache_witness:
  "\<exists>sm st1 st2.
     getHitomiServerMap FetchRejected \<lparr>serverMapPromise = None, promises = [], fetches = 0\<rparr>
       = Some (None, st1)
     \<and> serverMapPromise st1 = None \<and> fetches st1 = 1
     \<and> getHitomiServerMap (Response True (Some ggPayload)) st1 = Some (Some sm, st2)
     \<and> serverMapPromise st2 = Some 1 \<and> fetches st2 = 2
     \<and> getHitomiServerMap FetchRejected st2 = Some (Some sm, st2)
     \<and> getHitomiServerMap_enter st2 = (1, st2)"
proof -
  let ?st0 = "\<lparr>serverMapPromise = None, promises = [], fetches = 0\<rparr>"
  let ?st1 = "\<lparr>serverMapPromise = None, promises = [Fulfilled None], fetches = 1\<rparr>"
  from parseServerMap_Some [OF case_matches(5)] obtain sm where
    sm: "parseServerMap ggPayload = Some sm" by blast
  have ok: "resolveFetch (Response True (Some ggPayload)) = Some sm"
    using sm by (simp add: resolveFetch_def ggPayload_def)
  let ?st2 = "\<lparr>serverMapPromise = Some 1, promises = [Fulfilled None, Fulfilled (Some sm)], fetches = 2\<rparr>"
  have a: "getHitomiServerMap FetchRejected ?st0 = Some (None, ?st1)"
    using server_map_cache [of ?st0 FetchRejected] by simp
  have b: "getHitomiServerMap (Response True (Some ggPayload)) ?st1 = Some (Some sm, ?st2)"
    using server_map_cache [of ?st1 "Response True (Some ggPayload)"] ok by simp
  have c: "getHitomiServerMap FetchRejected ?st2 = Some (Some sm, ?st2)"
    and d: "getHitomiServerMap_enter ?st2 = (1, ?st2)"
    using server_map_cache [of ?st2 _ 1 sm] by simp_all
  show ?thesis
    using a b c d by (intro exI [of _ sm] exI [of _ ?st1] exI [of _ ?st2]) simp
qed

section \<open>The image export of the viewer (hitomi-viewer.tsx, \<^verbatim>\<open>handleDownloadImages\<close>)\<close>

subsection \<open>The browser and the data of one call\<close>

text \<open>
  \<^verbatim>\<open>handleDownloadImages\<close> talks to the browser at four places, and every answer can be a
  failure that the code handles. The model takes the answers as parameters:
  \<^item> \<open>probeOk\<close>: the 1x1 probe of \<^verbatim>\<open>resolveFormatConfig\<close> gets a blob for the format;
  \<^item> \<open>fetchImage\<close>: \<^verbatim>\<open>fetchImageBlob(entry.sources)\<close> followed by \<^verbatim>\<open>loadImageSource(blob)\<close>
    for the image at an index: no blob from any source (\<open>FetchFailed\<close>, the \<^verbatim>\<open>null\<close> of
    \<^verbatim>\<open>fetchImageBlob\<close>), a blob that does not decode (\<open>DecodeFailed\<close>, \<^verbatim>\<open>loadImageSource\<close>
    throws), or a decoded image with its width and height;
  \<^item> \<open>contextOk\<close>: \<^verbatim>\<open>getContext("2d")\<close> gives a context for a canvas;
  \<^item> \<open>encodeOk\<close>: \<^verbatim>\<open>canvasToBlob\<close> gives a blob for a canvas.

  One call fetches each image at most once and creates each canvas once, so the answers
  are functions of the image index and of the canvas. Saving a file, building the archive
  and drawing on a context are taken not to throw.
\<close>

datatype imageLoad = FetchFailed | DecodeFailed | Loaded nat nat

datatype canvasId = TileCanvas nat nat nat | ChunkCanvas nat

record browser =
  probeOk :: "ImageExportFormat \<Rightarrow> bool"
  fetchImage :: "nat \<Rightarrow> imageLoad"
  contextOk :: "canvasId \<Rightarrow> bool"
  encodeOk :: "canvasId \<Rightarrow> bool"

text \<open>
  \<^verbatim>\<open>HitomiImageEntry\<close>, with its optional declared size; a canvas handed to
  \<^verbatim>\<open>writeOutput\<close>, as its file name and its size (the pixels are not modelled); and the
  two ways of packaging.
\<close>

record HitomiImageEntry =
  sources :: "string list"
  alt :: string
  width :: "nat option"
  height :: "nat option"

record RasterOutput =
  fileName :: string
  canvasWidth :: int
  canvasHeight :: int

datatype ImagePackaging = single | zip'

text \<open>\<^verbatim>\<open>resolveFormatConfig\<close>: the limits of the format, or those of png when the probe fails.\<close>

definition resolveFormatConfig :: "browser \<Rightarrow> ImageExportFormat \<Rightarrow> ImageExportConfig" where
  "resolveFormatConfig b format =
     (if probeOk b format then IMAGE_EXPORT_CONFIG format else IMAGE_EXPORT_CONFIG png)"

subsection \<open>Combine mode\<close>

text \<open>
  The first loop of the combine branch (lines 515 to 532) measures every image: a declared
  size is taken as it is; without one (a missing or zero width or height) the image is
  fetched and decoded and stays in \<^verbatim>\<open>preload\<close>; an image without a blob counts as
  \<open>0 x 0\<close>; a decoding failure is thrown out of the branch.
\<close>

datatype measured = Declared nat nat | Preloaded nat nat | Missing | DecodeThrown

definition measureImage :: "browser \<Rightarrow> nat \<Rightarrow> HitomiImageEntry \<Rightarrow> measured" where
  "measureImage b index entry =
     (let w = (case width entry of None \<Rightarrow> 0 | Some w \<Rightarrow> w);
          h = (case height entry of None \<Rightarrow> 0 | Some h \<Rightarrow> h)
      in if w = 0 \<or> h = 0
         then (case fetchImage b index of
                 FetchFailed \<Rightarrow> Missing
               | DecodeFailed \<Rightarrow> DecodeThrown
               | Loaded lw lh \<Rightarrow> Preloaded lw lh)
         else Declared w h)"

fun dimsOf :: "measured \<Rightarrow> nat \<times> nat" where
  "dimsOf (Declared w h) = (w, h)"
| "dimsOf (Preloaded w h) = (w, h)"
| "dimsOf Missing = (0, 0)"
| "dimsOf DecodeThrown = (0, 0)"

definition measureAll :: "browser \<Rightarrow> HitomiImageEntry list \<Rightarrow> measured list" where
  "measureAll b images =
     map (\<lambda>(index, entry). measureImage b index entry) (zip [0..<length images] images)"

text \<open>
  Lines 534 to 555: the scale that brings the widest image down to \<^verbatim>\<open>maxDimension\<close>, the
  width of the strip, the height of a full chunk, the height of the whole strip and the
  number of chunks. The source computes these with doubles; the model computes with exact
  rationals, which is what the source does as long as every value is a whole number or a
  half below \<open>2 ^ 53\<close>: when no image is wider than \<^verbatim>\<open>maxDimension\<close> (the scale is 1) or
  when the scale is a power of two. The claims about this branch are stated for such
  inputs. \<^verbatim>\<open>Math.round(x)\<close> is \<open>\<lfloor>x + 1 / 2\<rfloor>\<close>.
\<close>

record combinePlan =
  widthScale :: rat
  scaledWidth :: int
  chunkHeight :: int
  totalHeight :: rat
  totalChunks :: int

definition planCombine :: "ImageExportConfig \<Rightarrow> (nat \<times> nat) list \<Rightarrow> combinePlan" where
  "planCombine formatConfig dimensions =
     (let combinedWidth = foldl (\<lambda>acc d. max acc (fst d)) 0 dimensions;
          safeWidth = max 1 combinedWidth;
          scale = (if safeWidth > maxDimension formatConfig
                   then of_nat (maxDimension formatConfig) / of_nat safeWidth else (1 :: rat));
          sWidth = max 1 (\<lfloor>of_nat safeWidth * scale + 1 / 2\<rfloor>);
          maxChunkHeight = min (int (maxDimension formatConfig))
                               (int (maxPixels formatConfig) div sWidth);
          cHeight = max 1 maxChunkHeight;
          total = foldl (\<lambda>sum d. sum + of_nat (snd d) * scale) 0 dimensions
      in \<lparr>widthScale = scale, scaledWidth = sWidth, chunkHeight = cHeight, totalHeight = total,
          totalChunks = max 1 \<lceil>total / of_int cHeight\<rceil>\<rparr>)"

text \<open>The height of the canvas that \<^verbatim>\<open>openChunk(index)\<close> creates (lines 563 to 567).\<close>

definition openChunkHeight :: "combinePlan \<Rightarrow> nat \<Rightarrow> int" where
  "openChunkHeight p index =
     (let remaining = max 0 (totalHeight p - of_nat index * of_int (chunkHeight p))
      in max 1 \<lceil>min (of_int (chunkHeight p)) remaining\<rceil>)"

text \<open>
  The variables of the drawing loop: \<^verbatim>\<open>chunkIndex\<close>, \<^verbatim>\<open>chunkYStart\<close>, the open canvas
  (whether there is one, and its height), \<^verbatim>\<open>yCursor\<close>, the chunks handed to
  \<^verbatim>\<open>writeOutput\<close> so far, and the \<^verbatim>\<open>drawImage\<close> calls made so far: which image, the source
  rows \<open>sourceY\<close> to \<open>sourceY + sourceHeight\<close>, and the rows \<open>targetY\<close> to
  \<open>targetY + targetHeight\<close> of the canvas of chunk \<open>targetChunk\<close>.
\<close>

record drawCall =
  drawnImage :: nat
  sourceY :: rat
  sourceHeight :: rat
  targetChunk :: nat
  targetY :: rat
  targetHeight :: rat

record combineState =
  chunkIndex :: nat
  chunkYStart :: rat
  canvasOpen :: bool
  openHeight :: int
  yCursor :: rat
  written :: "RasterOutput list"
  draws :: "drawCall list"

definition chunkName :: "string \<Rightarrow> ImageExportConfig \<Rightarrow> combinePlan \<Rightarrow> nat \<Rightarrow> string" where
  "chunkName baseLabel formatConfig p index =
     baseLabel @ ''-''
     @ (if totalChunks p > 1 then ''combined-part-'' @ numberToString (int index + 1) else ''combined'')
     @ ''.'' @ extension formatConfig"

text \<open>\<^verbatim>\<open>flushChunk\<close> (lines 580 to 592): the open canvas is encoded and written, if it encodes.\<close>

definition flushChunk ::
  "browser \<Rightarrow> string \<Rightarrow> ImageExportConfig \<Rightarrow> combinePlan \<Rightarrow> combineState \<Rightarrow> combineState" where
  "flushChunk b baseLabel formatConfig p st =
     (if \<not> canvasOpen st then st
      else if \<not> encodeOk b (ChunkCanvas (chunkIndex st)) then st
      else st\<lparr>written := written st @
             [\<lparr>fileName = chunkName baseLabel formatConfig p (chunkIndex st),
               canvasWidth = scaledWidth p, canvasHeight = openHeight st\<rparr>]\<rparr>)"

text \<open>\<^verbatim>\<open>openChunk\<close> and the assignment of its result to \<^verbatim>\<open>canvas\<close> and \<^verbatim>\<open>ctx\<close>.\<close>

definition openChunk :: "browser \<Rightarrow> combinePlan \<Rightarrow> nat \<Rightarrow> combineState \<Rightarrow> combineState" where
  "openChunk b p index st =
     (if contextOk b (ChunkCanvas index)
      then st\<lparr>canvasOpen := True, openHeight := openChunkHeight p index\<rparr>
      else st\<lparr>canvasOpen := False\<rparr>)"

text \<open>
  The \<^verbatim>\<open>while (remainingHeight > 0)\<close> loop of one image (lines 620 to 651).
  \<^verbatim>\<open>chunkBottom\<close> is computed once per round, before a new chunk is opened, and
  \<^verbatim>\<open>available\<close> is taken from that value also in a round that opens a chunk. The result
  is \<open>True\<close> with the state when the round \<^verbatim>\<open>return\<close>s for want of a context, \<open>False\<close> with
  the state when the loop ends, and \<open>None\<close> when it never ends.
\<close>

partial_function (option) drawSlices ::
  "browser \<Rightarrow> string \<Rightarrow> ImageExportConfig \<Rightarrow> combinePlan \<Rightarrow> nat \<Rightarrow> rat \<Rightarrow> rat
    \<Rightarrow> combineState \<Rightarrow> (bool \<times> combineState) option" where
  "drawSlices b baseLabel formatConfig p index remainingHeight sourceOffsetY st =
     (if remainingHeight > 0 then
        (let chunkBottom = chunkYStart st + of_int (openHeight st);
             crossing = (yCursor st + 1 / 2 \<ge> chunkBottom);
             st1 = (if crossing
                    then openChunk b p (chunkIndex st + 1)
                           ((flushChunk b baseLabel formatConfig p st)
                              \<lparr>chunkIndex := chunkIndex st + 1,
                               chunkYStart := of_nat (chunkIndex st + 1) * of_int (chunkHeight p)\<rparr>)
                    else st)
         in if \<not> canvasOpen st1 then Some (True, st1)
            else
              (let available = chunkBottom - yCursor st1;
                   sliceHeight = min remainingHeight available;
                   sourceSliceHeight = sliceHeight / widthScale p
               in drawSlices b baseLabel formatConfig p index
                    (remainingHeight - sliceHeight) (sourceOffsetY + sourceSliceHeight)
                    (st1\<lparr>yCursor := yCursor st1 + sliceHeight,
                         draws := draws st1 @
                           [\<lparr>drawnImage = index, sourceY = sourceOffsetY,
                             sourceHeight = sourceSliceHeight, targetChunk = chunkIndex st1,
                             targetY = yCursor st1 - chunkYStart st1,
                             targetHeight = sliceHeight\<rparr>]\<rparr>)))
      else Some (False, st))"

declare drawSlices.simps [code]

text \<open>
  How a run of the body ends: it reaches the end of the \<^verbatim>\<open>try\<close> block (\<open>Completed\<close>), it
  leaves by a \<^verbatim>\<open>return\<close> (\<open>Returned\<close>), or it throws into the \<^verbatim>\<open>catch\<close> (\<open>Threw\<close>).
\<close>

datatype completion = Completed | Returned | Threw

text \<open>
  The loop over the images (lines 601 to 658): an image without a size is skipped, as is
  one that has a declared size and no blob now; a preloaded image is drawn from
  \<^verbatim>\<open>preload\<close>, any other is fetched and decoded here.
\<close>

fun drawImages ::
  "browser \<Rightarrow> string \<Rightarrow> ImageExportConfig \<Rightarrow> combinePlan \<Rightarrow> (nat \<times> measured) list
    \<Rightarrow> combineState \<Rightarrow> (completion \<times> combineState) option" where
  "drawImages b baseLabel formatConfig p [] st = Some (Completed, st)"
| "drawImages b baseLabel formatConfig p ((index, m) # rest) st =
     (let dims = dimsOf m;
          drawWidth = of_nat (fst dims) * widthScale p;
          drawHeight = of_nat (snd dims) * widthScale p
      in if fst dims = 0 \<or> snd dims = 0 then drawImages b baseLabel formatConfig p rest st
         else if drawWidth \<le> 0 \<or> drawHeight \<le> 0 then drawImages b baseLabel formatConfig p rest st
         else (case (case m of Preloaded w h \<Rightarrow> Loaded w h | _ \<Rightarrow> fetchImage b index) of
                 FetchFailed \<Rightarrow> drawImages b baseLabel formatConfig p rest st
               | DecodeFailed \<Rightarrow> Some (Threw, st)
               | Loaded lw lh \<Rightarrow>
                   (case drawSlices b baseLabel formatConfig p index drawHeight 0 st of
                      None \<Rightarrow> None
                    | Some (aborted, st') \<Rightarrow>
                        if aborted then Some (Returned, st')
                        else drawImages b baseLabel formatConfig p rest st')))"

text \<open>
  The combine branch (lines 510 to 667): measuring, the plan, the early \<^verbatim>\<open>return\<close> for an
  empty strip or a missing first context, the drawing loop and the last \<^verbatim>\<open>flushChunk\<close>.
  The result is how the branch ended, the chunks written and the draw calls made.
\<close>

definition combineImages ::
  "browser \<Rightarrow> string \<Rightarrow> ImageExportConfig \<Rightarrow> HitomiImageEntry list
    \<Rightarrow> (completion \<times> RasterOutput list \<times> drawCall list) option" where
  "combineImages b baseLabel formatConfig images =
     (let ms = measureAll b images
      in if DecodeThrown \<in> set ms then Some (Threw, [], [])
         else
           (let p = planCombine formatConfig (map dimsOf ms)
            in if totalHeight p \<le> 0 then Some (Returned, [], [])
               else
                 (let st0 = openChunk b p 0
                        \<lparr>chunkIndex = 0, chunkYStart = 0, canvasOpen = False, openHeight = 0,
                         yCursor = 0, written = [], draws = []\<rparr>
                  in if \<not> canvasOpen st0 then Some (Returned, [], [])
                     else (case drawImages b baseLabel formatConfig p (zip [0..<length ms] ms) st0 of
                             None \<Rightarrow> None
                           | Some (c, st) \<Rightarrow>
                               if c = Completed
                               then (let st' = flushChunk b baseLabel formatConfig p st
                                     in Some (Completed, written st', draws st'))
                               else Some (c, written st, draws st)))))"

subsection \<open>Reading the draw calls\<close>






subsection \<open>One file per image, or one per tile\<close>

text \<open>\<^verbatim>\<open>padIndex\<close>: \<^verbatim>\<open>String(value).padStart(indexWidth, "0")\<close>.\<close>

definition padIndex :: "nat \<Rightarrow> int \<Rightarrow> string" where
  "padIndex indexWidth v =
     (let s = numberToString v in replicate (indexWidth - length s) CHR ''0'' @ s)"

definition tileName ::
  "string \<Rightarrow> ImageExportConfig \<Rightarrow> nat \<Rightarrow> TilePlan \<Rightarrow> nat \<Rightarrow> nat \<Rightarrow> nat \<Rightarrow> string" where
  "tileName baseLabel formatConfig indexWidth plan index row col =
     baseLabel @ ''-'' @ padIndex indexWidth (int index + 1)
     @ (if cols plan > 1 \<or> rows plan > 1
        then ''-part-'' @ numberToString (int row + 1) @ ''-'' @ numberToString (int col + 1)
        else [])
     @ ''.'' @ extension formatConfig"

text \<open>
  The two loops over the rows and columns of the plan (lines 687 to 732): the tiles in
  row-major order, without those whose canvas gets no context or no blob.
\<close>

definition exportTiles ::
  "browser \<Rightarrow> string \<Rightarrow> ImageExportConfig \<Rightarrow> nat \<Rightarrow> nat \<Rightarrow> TilePlan \<Rightarrow> nat \<Rightarrow> nat
    \<Rightarrow> RasterOutput list" where
  "exportTiles b baseLabel formatConfig indexWidth index plan w h =
     List.map_filter
       (\<lambda>(row, col).
          if contextOk b (TileCanvas index row col) \<and> encodeOk b (TileCanvas index row col)
          then Some \<lparr>fileName = tileName baseLabel formatConfig indexWidth plan index row col,
                      canvasWidth = sw (tileCrop plan w h row col),
                      canvasHeight = sh (tileCrop plan w h row col)\<rparr>
          else None)
       (List.product [0..<rows plan] [0..<cols plan])"

text \<open>
  The loop over the images (lines 669 to 736): an image without a blob is skipped
  (\<^verbatim>\<open>if (!blob) continue\<close>), a decoding failure is thrown, and the tiles of a decoded image
  are written. \<open>None\<close> is a tile planner that does not return.
\<close>

fun exportLoop ::
  "browser \<Rightarrow> string \<Rightarrow> ImageExportConfig \<Rightarrow> bool \<Rightarrow> nat \<Rightarrow> (nat \<times> HitomiImageEntry) list
    \<Rightarrow> RasterOutput list \<Rightarrow> (completion \<times> RasterOutput list) option" where
  "exportLoop b baseLabel formatConfig split indexWidth [] out = Some (Completed, out)"
| "exportLoop b baseLabel formatConfig split indexWidth ((index, entry) # rest) out =
     (case fetchImage b index of
        FetchFailed \<Rightarrow> exportLoop b baseLabel formatConfig split indexWidth rest out
      | DecodeFailed \<Rightarrow> Some (Threw, out)
      | Loaded w h \<Rightarrow>
          (case tilePlanFor split w h formatConfig of
             None \<Rightarrow> None
           | Some plan \<Rightarrow>
               exportLoop b baseLabel formatConfig split indexWidth rest
                 (out @ exportTiles b baseLabel formatConfig indexWidth index plan w h)))"

text \<open>What one round of that loop writes for the image at an index.\<close>

definition imageOutputs ::
  "browser \<Rightarrow> string \<Rightarrow> ImageExportConfig \<Rightarrow> bool \<Rightarrow> nat \<Rightarrow> nat \<Rightarrow> RasterOutput list" where
  "imageOutputs b baseLabel formatConfig split indexWidth index =
     (case fetchImage b index of
        Loaded w h \<Rightarrow>
          (case tilePlanFor split w h formatConfig of
             None \<Rightarrow> []
           | Some plan \<Rightarrow> exportTiles b baseLabel formatConfig indexWidth index plan w h)
      | _ \<Rightarrow> [])"

subsection \<open>Saving, notifications and the lock\<close>

text \<open>
  \<^verbatim>\<open>writeOutput\<close> and \<^verbatim>\<open>finalizeZip\<close>: with packaging \<^verbatim>\<open>single\<close> every output is saved
  when it is written; with \<^verbatim>\<open>zip\<close> the outputs are collected in \<^verbatim>\<open>entries\<close> under their
  file names (a later output of the same name replaces the earlier one in place) and one
  archive is saved at the end, unless there is no entry. \<^verbatim>\<open>finalizeZip\<close> is reached only
  by a run that did not return or throw before.
\<close>

datatype download = SaveFile RasterOutput | SaveZip string "RasterOutput list"

fun putEntry :: "RasterOutput \<Rightarrow> RasterOutput list \<Rightarrow> RasterOutput list" where
  "putEntry x [] = [x]"
| "putEntry x (y # ys) = (if fileName y = fileName x then x # ys else y # putEntry x ys)"

definition zipEntries :: "RasterOutput list \<Rightarrow> RasterOutput list" where
  "zipEntries out = foldl (\<lambda>entries x. putEntry x entries) [] out"

definition zipName :: "string \<Rightarrow> ImageExportConfig \<Rightarrow> string \<Rightarrow> string" where
  "zipName baseLabel formatConfig suffix =
     baseLabel @ (if suffix \<noteq> [] then ''-'' @ suffix else []) @ ''-'' @ extension formatConfig @ ''.zip''"

definition downloadsOf ::
  "ImagePackaging \<Rightarrow> string \<Rightarrow> ImageExportConfig \<Rightarrow> string \<Rightarrow> completion \<Rightarrow> RasterOutput list
    \<Rightarrow> download list" where
  "downloadsOf packaging baseLabel formatConfig suffix c out =
     (case packaging of
        single \<Rightarrow> map SaveFile out
      | zip' \<Rightarrow> if c = Completed \<and> out \<noteq> []
               then [SaveZip (zipName baseLabel formatConfig suffix) (zipEntries out)] else [])"

text \<open>
  What the user sees of the viewer: the lock \<^verbatim>\<open>downloadLockRef.current\<close>, the flag
  \<^verbatim>\<open>isDownloading\<close>, the notifications in the order they were raised (a loading
  notification is identified by its position, which is what \<^verbatim>\<open>dismissToast\<close> gets), and
  the files saved.
\<close>

datatype toast = ToastError string | ToastInfo string | ToastLoading string | ToastSuccess string
  | ToastDismiss nat

record viewer =
  downloadLock :: bool
  isDownloading :: bool
  toastLog :: "toast list"
  saved :: "download list"

text \<open>
  \<^verbatim>\<open>handleDownloadImages\<close> is an \<^verbatim>\<open>async\<close> function. It runs in one piece up to its first
  \<^verbatim>\<open>await\<close> (lines 471 to 482: the two guards, taking the lock, the loading notification);
  other handlers can run while its body waits; its end (lines 738 to 749) is the success
  notification of a body that ran to the end of \<^verbatim>\<open>try\<close>, the error notification of one
  that threw, and in every case the \<^verbatim>\<open>finally\<close> block.
\<close>

datatype entered = Rejected | Started nat

definition handleDownloadImages_enter ::
  "HitomiImageEntry list \<Rightarrow> viewer \<Rightarrow> entered \<times> viewer" where
  "handleDownloadImages_enter images v =
     (if images = [] then (Rejected, v\<lparr>toastLog := toastLog v @ [ToastError ''No images to download'']\<rparr>)
      else if downloadLock v
      then (Rejected, v\<lparr>toastLog := toastLog v @ [ToastInfo ''Download already in progress'']\<rparr>)
      else (Started (length (toastLog v)),
            v\<lparr>downloadLock := True, isDownloading := True,
              toastLog := toastLog v @
                [ToastLoading (''Preparing to download '' @ numberToString (int (length images))
                               @ '' images...'')]\<rparr>))"

text \<open>
  The \<^verbatim>\<open>try\<close> block: how it ends and what it saves. The combine branch always leaves by
  \<^verbatim>\<open>return\<close> (line 662 at the latest), so it never reaches the success notification.
\<close>

definition handleDownloadImages_body ::
  "browser \<Rightarrow> string \<Rightarrow> HitomiImageEntry list \<Rightarrow> ImageExportFormat \<Rightarrow> ImagePackaging \<Rightarrow> bool \<Rightarrow> bool
    \<Rightarrow> (completion \<times> download list) option" where
  "handleDownloadImages_body b baseLabel images format packaging split combine =
     (let formatConfig = resolveFormatConfig b format;
          indexWidth = length (numberToString (int (length images)))
      in if combine
         then (case combineImages b baseLabel formatConfig images of
                 None \<Rightarrow> None
               | Some (c, out, drawn) \<Rightarrow>
                   Some (if c = Threw then Threw else Returned,
                         downloadsOf packaging baseLabel formatConfig ''combined'' c out))
         else (case exportLoop b baseLabel formatConfig split indexWidth
                      (zip [0..<length images] images) [] of
                 None \<Rightarrow> None
               | Some (c, out) \<Rightarrow> Some (c, downloadsOf packaging baseLabel formatConfig [] c out)))"

definition handleDownloadImages_exit ::
  "HitomiImageEntry list \<Rightarrow> nat \<Rightarrow> completion \<times> download list \<Rightarrow> viewer \<Rightarrow> viewer" where
  "handleDownloadImages_exit images toastId result v =
     v\<lparr>downloadLock := False, isDownloading := False,
       saved := saved v @ snd result,
       toastLog := toastLog v @
         (case fst result of
            Completed \<Rightarrow> [ToastDismiss toastId,
                           ToastSuccess (''Successfully downloaded '' @ numberToString (int (length images))
                                         @ '' images!'')]
          | Threw \<Rightarrow> [ToastDismiss toastId, ToastError ''Download failed. Please try again.'']
          | Returned \<Rightarrow> [])\<rparr>"

text \<open>A call that nothing interleaves with.\<close>

definition handleDownloadImages ::
  "browser \<Rightarrow> string \<Rightarrow> HitomiImageEntry list \<Rightarrow> ImageExportFormat \<Rightarrow> ImagePackaging \<Rightarrow> bool \<Rightarrow> bool
    \<Rightarrow> viewer \<Rightarrow> viewer option" where
  "handleDownloadImages b baseLabel images format packaging split combine v =
     (case handleDownloadImages_enter images v of
        (Rejected, v') \<Rightarrow> Some v'
      | (Started toastId, v') \<Rightarrow>
          (case handleDownloadImages_body b baseLabel images format packaging split combine of
             None \<Rightarrow> None
           | Some result \<Rightarrow> Some (handleDownloadImages_exit images toastId result v')))"

subsection \<open>Sample galleries and browsers\<close>

text \<open>
  A page without a declared size; a browser in which the third image (index 2) has no
  blob and every other is 800 by 1200; one in which no image has a blob; a viewer at
  rest and one in the middle of an export.
\<close>

definition blankPage :: HitomiImageEntry where
  "blankPage = \<lparr>sources = [''/api/hitomi-image?url=page''], alt = ''page'', width = None, height = None\<rparr>"

definition thirdFails :: browser where
  "thirdFails = \<lparr>probeOk = (\<lambda>format. True),
     fetchImage = (\<lambda>index. if index = 2 then FetchFailed else Loaded 800 1200),
     contextOk = (\<lambda>c. True), encodeOk = (\<lambda>c. True)\<rparr>"

definition allFail :: browser where
  "allFail = \<lparr>probeOk = (\<lambda>format. True), fetchImage = (\<lambda>index. FetchFailed),
     contextOk = (\<lambda>c. True), encodeOk = (\<lambda>c. True)\<rparr>"

definition idleViewer :: viewer where
  "idleViewer = \<lparr>downloadLock = False, isDownloading = False, toastLog = [], saved = []\<rparr>"

definition busyViewer :: viewer where
  "busyViewer = \<lparr>downloadLock = True, isDownloading = True,
     toastLog = [ToastLoading ''Preparing to download 5 images...''], saved = []\<rparr>"








section \<open>Lemmas about the image export\<close>


lemma decimal_small:
  "numberToString 5 = ''5''" "numberToString 1 = ''1''" "numberToString 2 = ''2''"
  "numberToString 3 = ''3''" "numberToString 4 = ''4''"
  by code_simp+

text \<open>With positive limits the tile plan of an image exists.\<close>

lemma tilePlanFor_Some:
  assumes "0 < maxDimension cfg" and "0 < maxPixels cfg"
  shows "\<exists>plan. tilePlanFor split w h cfg = Some plan"
proof (cases "needsSplit split w h cfg")
  case True
  then show ?thesis using resolveTilePlan_post [OF assms, of w h] by (auto simp: tilePlanFor_def)
next
  case False
  then show ?thesis by (simp add: tilePlanFor_def)
qed

text \<open>
  Without a decoding failure the loop runs to its end and writes, image by image, what
  \<open>imageOutputs\<close> gives.
\<close>

lemma exportLoop_outputs:
  assumes "0 < maxDimension cfg" and "0 < maxPixels cfg"
  shows "\<forall>(i, e) \<in> set items. fetchImage b i \<noteq> DecodeFailed \<Longrightarrow>
     exportLoop b label cfg split iw items out
       = Some (Completed, out @ concat (map (\<lambda>(i, e). imageOutputs b label cfg split iw i) items))"
proof (induction items arbitrary: out)
  case Nil
  then show ?case by simp
next
  case (Cons item items)
  obtain i e where item: "item = (i, e)" by (cases item)
  have rest: "\<forall>(i, e) \<in> set items. fetchImage b i \<noteq> DecodeFailed" using Cons.prems by simp
  have here: "fetchImage b i \<noteq> DecodeFailed" using Cons.prems item by simp
  show ?case
  proof (cases "fetchImage b i")
    case FetchFailed
    then show ?thesis using Cons.IH [OF rest] item by (simp add: imageOutputs_def)
  next
    case DecodeFailed
    then show ?thesis using here by simp
  next
    case (Loaded w h)
    from tilePlanFor_Some [OF assms] obtain plan where plan: "tilePlanFor split w h cfg = Some plan"
      by blast
    then show ?thesis using Cons.IH [OF rest] item Loaded by (simp add: imageOutputs_def)
  qed
qed

lemma config_positive:
  "0 < maxDimension (resolveFormatConfig b format)" "0 < maxPixels (resolveFormatConfig b format)"
  by (cases format; simp add: resolveFormatConfig_def)+



lemma map_zip_fst:
  "length is = length xs \<Longrightarrow> map (\<lambda>(i, e). f i) (zip is xs) = map f is"
  by (induction "is" xs rule: list_induct2) auto

lemma concat_indexed:
  "concat (map (\<lambda>(i, e). f i) (zip [0..<length xs] xs)) = concat (map f [0..<length xs])"
proof -
  have "length [0..<length xs] = length xs" by simp
  then have eq: "map (\<lambda>(i, e). f i) (zip [0..<length xs] xs) = map f [0..<length xs]"
    by (rule map_zip_fst)
  show ?thesis unfolding eq ..
qed

lemma zip_indices: "(i, e) \<in> set (zip [0..<length xs] xs) \<Longrightarrow> i < length xs"
  by (drule set_zip_leftD) simp

text \<open>A whole call in the mode without combining, when no image fails to decode.\<close>

lemma export_run:
  assumes "images \<noteq> []" and "\<not> downloadLock v"
    and "\<forall>i < length images. fetchImage b i \<noteq> DecodeFailed"
  shows "handleDownloadImages b label images format packaging split False v
       = Some (v\<lparr>downloadLock := False, isDownloading := False,
                 saved := saved v @ downloadsOf packaging label (resolveFormatConfig b format) [] Completed
                    (concat (map (imageOutputs b label (resolveFormatConfig b format) split
                                    (length (numberToString (int (length images)))))
                              [0..<length images])),
                 toastLog := toastLog v @
                   [ToastLoading (''Preparing to download '' @ numberToString (int (length images))
                                  @ '' images...''),
                    ToastDismiss (length (toastLog v)),
                    ToastSuccess (''Successfully downloaded '' @ numberToString (int (length images))
                                  @ '' images!'')]\<rparr>)"
proof -
  let ?cfg = "resolveFormatConfig b format"
  let ?iw = "length (numberToString (int (length images)))"
  have nodecode: "\<forall>(i, e) \<in> set (zip [0..<length images] images). fetchImage b i \<noteq> DecodeFailed"
  proof (rule ballI)
    fix x
    assume x: "x \<in> set (zip [0..<length images] images)"
    obtain i e where ie: "x = (i, e)" by (cases x)
    have "i < length images" using x unfolding ie by (rule zip_indices)
    then have "fetchImage b i \<noteq> DecodeFailed" using assms(3) by blast
    then show "case x of (i, e) \<Rightarrow> fetchImage b i \<noteq> DecodeFailed" using ie by simp
  qed
  have loop: "exportLoop b label ?cfg split ?iw (zip [0..<length images] images) []
      = Some (Completed, concat (map (imageOutputs b label ?cfg split ?iw) [0..<length images]))"
    using exportLoop_outputs [OF config_positive nodecode,
        where label = label and split = split and iw = ?iw and out = "[]"]
    unfolding concat_indexed by simp
  have body: "handleDownloadImages_body b label images format packaging split False
      = Some (Completed, downloadsOf packaging label ?cfg [] Completed
                (concat (map (imageOutputs b label ?cfg split ?iw) [0..<length images])))"
    using loop by (simp add: handleDownloadImages_body_def Let_def)
  show ?thesis
    using assms(1,2) body
    by (simp add: handleDownloadImages_def handleDownloadImages_enter_def handleDownloadImages_exit_def)
qed

lemma failed_image_no_output:
  "fetchImage b i = FetchFailed \<Longrightarrow> imageOutputs b label cfg split iw i = []"
  by (simp add: imageOutputs_def)

lemma all_failed_nothing_saved:
  assumes "\<forall>i < n. fetchImage b i = FetchFailed"
  shows "downloadsOf packaging label cfg [] Completed
           (concat (map (imageOutputs b label cfg split iw) [0..<n])) = []"
proof -
  have "\<forall>i \<in> set [0..<n]. imageOutputs b label cfg split iw i = []"
    using assms failed_image_no_output by simp
  then have "concat (map (imageOutputs b label cfg split iw) [0..<n]) = []"
    by (simp add: concat_eq_Nil_conv)
  then show ?thesis by (cases packaging) (simp_all add: downloadsOf_def)
qed

lemma plain_image_output:
  assumes "fetchImage b i = Loaded 800 1200" and "contextOk b (TileCanvas i 0 0)"
    and "encodeOk b (TileCanvas i 0 0)"
  shows "imageOutputs b label (IMAGE_EXPORT_CONFIG jpg) True iw i
     = [\<lparr>fileName = label @ ''-'' @ padIndex iw (int i + 1) @ ''.jpg'',
         canvasWidth = 800, canvasHeight = 1200\<rparr>]"
proof -
  have plan: "tilePlanFor True 800 1200 (IMAGE_EXPORT_CONFIG jpg)
      = Some \<lparr>cols = 1, rows = 1, tileWidth = 800, tileHeight = 1200\<rparr>"
    by (simp add: tilePlanFor_def needsSplit_def)
  show ?thesis
    using assms by (simp add: imageOutputs_def plan [unfolded IMAGE_EXPORT_CONFIG.simps]
        exportTiles_def List.map_filter_simps tileName_def tileCrop_def)
qed



text \<open>The loop returns whatever the browser answers.\<close>

lemma exportLoop_total:
  assumes "0 < maxDimension cfg" and "0 < maxPixels cfg"
  shows "\<exists>c out'. exportLoop b label cfg split iw items out = Some (c, out')"
proof (induction items arbitrary: out)
  case Nil
  show ?case by simp
next
  case (Cons item items)
  obtain i e where item: "item = (i, e)" by (cases item)
  show ?case
  proof (cases "fetchImage b i")
    case FetchFailed
    then show ?thesis using Cons.IH [of out] item by simp
  next
    case DecodeFailed
    then show ?thesis using item by simp
  next
    case (Loaded w h)
    from tilePlanFor_Some [OF assms] obtain plan where plan: "tilePlanFor split w h cfg = Some plan"
      by blast
    show ?thesis
      using Cons.IH [of "out @ exportTiles b label cfg iw i plan w h"] item Loaded plan by simp
  qed
qed

lemma body_total:
  "\<exists>result. handleDownloadImages_body b label images format packaging split False = Some result"
proof -
  from exportLoop_total [OF config_positive]
  obtain c out' where
    "exportLoop b label (resolveFormatConfig b format) split
       (length (numberToString (int (length images)))) (zip [0..<length images] images) []
     = Some (c, out')"
    by blast
  then show ?thesis by (simp add: handleDownloadImages_body_def Let_def)
qed

lemma tilePlanFor_counts:
  assumes "0 < maxDimension cfg" and "0 < maxPixels cfg"
    and "tilePlanFor split w h cfg = Some plan"
  shows "0 < cols plan \<and> 0 < rows plan"
proof (cases "needsSplit split w h cfg")
  case True
  then have run: "resolveTilePlan w h cfg = Some plan" using assms(3) by (simp add: tilePlanFor_def)
  from resolveTilePlan_post [OF assms(1,2), of w h] run
  have "max 1 (ceilDiv w (maxDimension cfg)) \<le> cols plan"
    "max 1 (ceilDiv h (maxDimension cfg)) \<le> rows plan"
    by auto
  then show ?thesis by simp
next
  case False
  then have "plan = \<lparr>cols = 1, rows = 1, tileWidth = w, tileHeight = h\<rparr>"
    using assms(3) by (simp add: tilePlanFor_def)
  then show ?thesis by simp
qed

lemma map_filter_nonempty:
  "xs \<noteq> [] \<Longrightarrow> \<forall>x \<in> set xs. f x \<noteq> None \<Longrightarrow> List.map_filter f xs \<noteq> []"
  by (cases xs) (auto simp: List.map_filter_simps)

lemma loaded_image_outputs:
  assumes "0 < maxDimension cfg" and "0 < maxPixels cfg"
    and "fetchImage b i = Loaded w h"
    and "\<forall>row col. contextOk b (TileCanvas i row col) \<and> encodeOk b (TileCanvas i row col)"
  shows "imageOutputs b label cfg split iw i \<noteq> []"
proof -
  from tilePlanFor_Some [OF assms(1,2)] obtain plan where plan: "tilePlanFor split w h cfg = Some plan"
    by blast
  from tilePlanFor_counts [OF assms(1,2) plan] have pos: "0 < cols plan" "0 < rows plan" by simp_all
  have "List.product [0..<rows plan] [0..<cols plan] \<noteq> []"
    using pos by (cases "[0..<rows plan]"; cases "[0..<cols plan]") simp_all
  then have "exportTiles b label cfg iw i plan w h \<noteq> []"
    unfolding exportTiles_def using assms(4) by (intro map_filter_nonempty) auto
  then show ?thesis using assms(3) plan by (simp add: imageOutputs_def)
qed

text \<open>The two sample runs.\<close>

lemma upto5: "[0..<5] = [0, 1, 2, 3, 4]"
  by code_simp

lemma pad_small:
  "padIndex (Suc 0) 1 = ''1''" "padIndex (Suc 0) 2 = ''2''" "padIndex (Suc 0) 3 = ''3''"
  "padIndex (Suc 0) 4 = ''4''" "padIndex (Suc 0) 5 = ''5''"
  by code_simp+

lemma thirdFails_config: "resolveFormatConfig thirdFails jpg = IMAGE_EXPORT_CONFIG jpg"
  by (simp add: resolveFormatConfig_def thirdFails_def)

lemma thirdFails_outputs:
  "concat (map (imageOutputs thirdFails ''gallery'' (IMAGE_EXPORT_CONFIG jpg) True 1) [0..<5])
      = [\<lparr>fileName = ''gallery-1.jpg'', canvasWidth = 800, canvasHeight = 1200\<rparr>,
         \<lparr>fileName = ''gallery-2.jpg'', canvasWidth = 800, canvasHeight = 1200\<rparr>,
         \<lparr>fileName = ''gallery-4.jpg'', canvasWidth = 800, canvasHeight = 1200\<rparr>,
         \<lparr>fileName = ''gallery-5.jpg'', canvasWidth = 800, canvasHeight = 1200\<rparr>]"
proof -
  have ok: "\<And>i. i \<noteq> 2 \<Longrightarrow> imageOutputs thirdFails ''gallery'' (IMAGE_EXPORT_CONFIG jpg) True 1 i
      = [\<lparr>fileName = ''gallery'' @ ''-'' @ padIndex 1 (int i + 1) @ ''.jpg'',
          canvasWidth = 800, canvasHeight = 1200\<rparr>]"
    by (rule plain_image_output) (simp_all add: thirdFails_def)
  have bad: "imageOutputs thirdFails ''gallery'' (IMAGE_EXPORT_CONFIG jpg) True 1 2 = []"
    by (rule failed_image_no_output) (simp add: thirdFails_def)
  show ?thesis
    unfolding upto5 using ok [of 0] ok [of 1] ok [of 3] ok [of 4] bad by (simp add: pad_small)
qed

lemma thirdFails_hyps:
  "replicate 5 blankPage \<noteq> []" "\<not> downloadLock idleViewer"
  "\<forall>i < length (replicate 5 blankPage). fetchImage thirdFails i \<noteq> DecodeFailed"
  by (simp_all add: idleViewer_def thirdFails_def)

lemma thirdFails_sizes:
  "\<forall>i < length (replicate 5 blankPage). \<forall>w h. fetchImage thirdFails i = Loaded w h
      \<longrightarrow> w < 2 ^ 53 \<and> h < 2 ^ 53"
  by (simp add: thirdFails_def)

lemma thirdFails_run:
  "handleDownloadImages thirdFails ''gallery'' (replicate 5 blankPage) jpg single True False idleViewer
     = Some \<lparr>downloadLock = False, isDownloading = False,
          toastLog = [ToastLoading ''Preparing to download 5 images...'', ToastDismiss 0,
                      ToastSuccess ''Successfully downloaded 5 images!''],
          saved = [SaveFile \<lparr>fileName = ''gallery-1.jpg'', canvasWidth = 800, canvasHeight = 1200\<rparr>,
                   SaveFile \<lparr>fileName = ''gallery-2.jpg'', canvasWidth = 800, canvasHeight = 1200\<rparr>,
                   SaveFile \<lparr>fileName = ''gallery-4.jpg'', canvasWidth = 800, canvasHeight = 1200\<rparr>,
                   SaveFile \<lparr>fileName = ''gallery-5.jpg'', canvasWidth = 800, canvasHeight = 1200\<rparr>]\<rparr>"
  using export_run [OF thirdFails_hyps, of "''gallery''" jpg single True]
  by (simp add: thirdFails_config thirdFails_outputs [simplified] decimal_small downloadsOf_def
      idleViewer_def)

lemma allFail_run:
  "handleDownloadImages allFail ''gallery'' (replicate 5 blankPage) jpg zip' True False idleViewer
     = Some \<lparr>downloadLock = False, isDownloading = False,
          toastLog = [ToastLoading ''Preparing to download 5 images...'', ToastDismiss 0,
                      ToastSuccess ''Successfully downloaded 5 images!''],
          saved = []\<rparr>"
proof -
  have nodecode: "\<forall>i < length (replicate 5 blankPage). fetchImage allFail i \<noteq> DecodeFailed"
    by (simp add: allFail_def)
  have allfail: "\<forall>i < 5. fetchImage allFail i = FetchFailed" by (simp add: allFail_def)
  have "replicate 5 blankPage \<noteq> []" "\<not> downloadLock idleViewer" by (simp_all add: idleViewer_def)
  from export_run [OF this nodecode, of "''gallery''" jpg zip' True]
    all_failed_nothing_saved [OF allfail, of zip' "''gallery''" "resolveFormatConfig allFail jpg" True 1]
  show ?thesis
    by (simp add: decimal_small idleViewer_def)
qed


section \<open>Claims about the image export\<close>

text \<open>
  C7 (per-image fetch failure isolation), as the code has it. When images of a batch
  have no blob, and none fails to decode, the export without combining skips them,
  goes on with the batch and writes the outputs of the other images: an image without a
  blob gives no output, a decoded image whose canvases get a context and a blob gives at
  least one. The call ends with the success notification, and that notification names the
  number of images of the batch (\<^verbatim>\<open>images.length\<close>, line 741), not the number of
  images exported. When no image of the batch has a blob nothing is saved, no file and no
  archive, and the call still ends with that success notification: the error
  \<^verbatim>\<open>No images to download\<close> is raised for an empty batch only (line 471). Decoded sizes
  are below \<open>2 ^ 53\<close>, as every size a browser reports is.
\<close>

theorem fetch_failure_isolation:
  assumes "images \<noteq> []" and "\<not> downloadLock v"
    and "\<forall>i < length images. fetchImage b i \<noteq> DecodeFailed"
    and "\<forall>i < length images. \<forall>w h. fetchImage b i = Loaded w h \<longrightarrow> w < 2 ^ 53 \<and> h < 2 ^ 53"
  shows "handleDownloadImages b label images format packaging split False v
       = Some (v\<lparr>downloadLock := False, isDownloading := False,
                 saved := saved v @ downloadsOf packaging label (resolveFormatConfig b format) [] Completed
                    (concat (map (imageOutputs b label (resolveFormatConfig b format) split
                                    (length (numberToString (int (length images)))))
                              [0..<length images])),
                 toastLog := toastLog v @
                   [ToastLoading (''Preparing to download '' @ numberToString (int (length images))
                                  @ '' images...''),
                    ToastDismiss (length (toastLog v)),
                    ToastSuccess (''Successfully downloaded '' @ numberToString (int (length images))
                                  @ '' images!'')]\<rparr>)
     \<and> (\<forall>i. fetchImage b i = FetchFailed \<longrightarrow>
            imageOutputs b label (resolveFormatConfig b format) split
              (length (numberToString (int (length images)))) i = [])
     \<and> (\<forall>i w h. fetchImage b i = Loaded w h
            \<and> (\<forall>row col. contextOk b (TileCanvas i row col) \<and> encodeOk b (TileCanvas i row col))
          \<longrightarrow> imageOutputs b label (resolveFormatConfig b format) split
              (length (numberToString (int (length images)))) i \<noteq> [])
     \<and> ((\<forall>i < length images. fetchImage b i = FetchFailed) \<longrightarrow>
            downloadsOf packaging label (resolveFormatConfig b format) [] Completed
              (concat (map (imageOutputs b label (resolveFormatConfig b format) split
                              (length (numberToString (int (length images)))))
                        [0..<length images])) = [])"
proof (intro conjI allI impI)
  show "handleDownloadImages b label images format packaging split False v
       = Some (v\<lparr>downloadLock := False, isDownloading := False,
                 saved := saved v @ downloadsOf packaging label (resolveFormatConfig b format) [] Completed
                    (concat (map (imageOutputs b label (resolveFormatConfig b format) split
                                    (length (numberToString (int (length images)))))
                              [0..<length images])),
                 toastLog := toastLog v @
                   [ToastLoading (''Preparing to download '' @ numberToString (int (length images))
                                  @ '' images...''),
                    ToastDismiss (length (toastLog v)),
                    ToastSuccess (''Successfully downloaded '' @ numberToString (int (length images))
                                  @ '' images!'')]\<rparr>)"
    using assms(1,2,3) by (rule export_run)
next
  fix i
  assume "fetchImage b i = FetchFailed"
  then show "imageOutputs b label (resolveFormatConfig b format) split
              (length (numberToString (int (length images)))) i = []"
    by (rule failed_image_no_output)
next
  fix i w h
  assume a: "fetchImage b i = Loaded w h
            \<and> (\<forall>row col. contextOk b (TileCanvas i row col) \<and> encodeOk b (TileCanvas i row col))"
  show "imageOutputs b label (resolveFormatConfig b format) split
              (length (numberToString (int (length images)))) i \<noteq> []"
    using config_positive a by (intro loaded_image_outputs [where w = w and h = h]) blast+
next
  assume "\<forall>i < length images. fetchImage b i = FetchFailed"
  then show "downloadsOf packaging label (resolveFormatConfig b format) [] Completed
              (concat (map (imageOutputs b label (resolveFormatConfig b format) split
                              (length (numberToString (int (length images)))))
                        [0..<length images])) = []"
    by (rule all_failed_nothing_saved)
qed

theorem fetch_failure_isolation_witness:
  "replicate 5 blankPage \<noteq> [] \<and> \<not> downloadLock idleViewer
   \<and> fetchImage thirdFails 2 = FetchFailed
   \<and> handleDownloadImages thirdFails ''gallery'' (replicate 5 blankPage) jpg single True False idleViewer
     = Some \<lparr>downloadLock = False, isDownloading = False,
          toastLog = [ToastLoading ''Preparing to download 5 images...'', ToastDismiss 0,
                      ToastSuccess ''Successfully downloaded 5 images!''],
          saved = [SaveFile \<lparr>fileName = ''gallery-1.jpg'', canvasWidth = 800, canvasHeight = 1200\<rparr>,
                   SaveFile \<lparr>fileName = ''gallery-2.jpg'', canvasWidth = 800, canvasHeight = 1200\<rparr>,
                   SaveFile \<lparr>fileName = ''gallery-4.jpg'', canvasWidth = 800, canvasHeight = 1200\<rparr>,
                   SaveFile \<lparr>fileName = ''gallery-5.jpg'', canvasWidth = 800, canvasHeight = 1200\<rparr>]\<rparr>
   \<and> imageOutputs thirdFails ''gallery'' (IMAGE_EXPORT_CONFIG jpg) True 1 2 = []
   \<and> imageOutputs thirdFails ''gallery'' (IMAGE_EXPORT_CONFIG jpg) True 1 3 \<noteq> []"
proof -
  have failed: "fetchImage thirdFails 2 = FetchFailed" by (simp add: thirdFails_def)
  have loaded: "fetchImage thirdFails 3 = Loaded 800 1200
       \<and> (\<forall>row col. contextOk thirdFails (TileCanvas 3 row col)
                    \<and> encodeOk thirdFails (TileCanvas 3 row col))"
    by (simp add: thirdFails_def)
  note all = fetch_failure_isolation [OF thirdFails_hyps thirdFails_sizes,
      of "''gallery''" jpg single True]
  have run: "handleDownloadImages thirdFails ''gallery'' (replicate 5 blankPage) jpg single True False idleViewer
     = Some \<lparr>downloadLock = False, isDownloading = False,
          toastLog = [ToastLoading ''Preparing to download 5 images...'', ToastDismiss 0,
                      ToastSuccess ''Successfully downloaded 5 images!''],
          saved = [SaveFile \<lparr>fileName = ''gallery-1.jpg'', canvasWidth = 800, canvasHeight = 1200\<rparr>,
                   SaveFile \<lparr>fileName = ''gallery-2.jpg'', canvasWidth = 800, canvasHeight = 1200\<rparr>,
                   SaveFile \<lparr>fileName = ''gallery-4.jpg'', canvasWidth = 800, canvasHeight = 1200\<rparr>,
                   SaveFile \<lparr>fileName = ''gallery-5.jpg'', canvasWidth = 800, canvasHeight = 1200\<rparr>]\<rparr>"
    using all [THEN conjunct1]
    by (simp add: thirdFails_config thirdFails_outputs [simplified] decimal_small downloadsOf_def
        idleViewer_def)
  have skip: "imageOutputs thirdFails ''gallery'' (IMAGE_EXPORT_CONFIG jpg) True 1 2 = []"
    using all [THEN conjunct2, THEN conjunct1] failed
    by (simp add: thirdFails_config decimal_small)
  have kept: "imageOutputs thirdFails ''gallery'' (IMAGE_EXPORT_CONFIG jpg) True 1 3 \<noteq> []"
    using all [THEN conjunct2, THEN conjunct2, THEN conjunct1] loaded
    by (simp add: thirdFails_config decimal_small)
  show ?thesis using thirdFails_hyps(1,2) failed run skip kept by blast
qed

text \<open>
  C7 as the specification words it fails on the code. For five pages of which the
  third has no blob, four files are saved and the notification reads
  \<^verbatim>\<open>Successfully downloaded 5 images!\<close>, not 4. For five pages of which none has a blob
  and packaging \<^verbatim>\<open>zip\<close>, nothing is saved and the notification is the same success
  notification; no error is raised.
\<close>

theorem fetch_failure_count_counterexample:
  "handleDownloadImages thirdFails ''gallery'' (replicate 5 blankPage) jpg single True False idleViewer
     = Some \<lparr>downloadLock = False, isDownloading = False,
          toastLog = [ToastLoading ''Preparing to download 5 images...'', ToastDismiss 0,
                      ToastSuccess ''Successfully downloaded 5 images!''],
          saved = [SaveFile \<lparr>fileName = ''gallery-1.jpg'', canvasWidth = 800, canvasHeight = 1200\<rparr>,
                   SaveFile \<lparr>fileName = ''gallery-2.jpg'', canvasWidth = 800, canvasHeight = 1200\<rparr>,
                   SaveFile \<lparr>fileName = ''gallery-4.jpg'', canvasWidth = 800, canvasHeight = 1200\<rparr>,
                   SaveFile \<lparr>fileName = ''gallery-5.jpg'', canvasWidth = 800, canvasHeight = 1200\<rparr>]\<rparr>
   \<and> handleDownloadImages allFail ''gallery'' (replicate 5 blankPage) jpg zip' True False idleViewer
     = Some \<lparr>downloadLock = False, isDownloading = False,
          toastLog = [ToastLoading ''Preparing to download 5 images...'', ToastDismiss 0,
                      ToastSuccess ''Successfully downloaded 5 images!''],
          saved = []\<rparr>"
  using thirdFails_run allFail_run by (rule conjI)

text \<open>
  C8 (single in-flight session). While the lock is held, a request for a non-empty
  gallery is rejected in its first step: it raises \<^verbatim>\<open>Download already in progress\<close> and
  changes nothing else, so it takes no lock, saves nothing and runs no body; the end of
  the session that holds the lock then does what it would have done without the
  rejected request, its notifications following the notice. The end of a session
  releases the lock and clears \<^verbatim>\<open>isDownloading\<close> however the body ended (it ran to the
  end, returned early or threw). A request on a free lock takes it and saves nothing in
  its first step; a call that returns leaves the lock free; and without combining the
  call always returns (decoded sizes below \<open>2 ^ 53\<close>), whatever fails in the browser.
\<close>

theorem single_in_flight:
  "(downloadLock v \<and> images \<noteq> [] \<longrightarrow>
       handleDownloadImages_enter images v
         = (Rejected, v\<lparr>toastLog := toastLog v @ [ToastInfo ''Download already in progress'']\<rparr>)
     \<and> handleDownloadImages b label images format packaging split combine v
         = Some (v\<lparr>toastLog := toastLog v @ [ToastInfo ''Download already in progress'']\<rparr>)
     \<and> handleDownloadImages_exit images1 toastId result
           (v\<lparr>toastLog := toastLog v @ [ToastInfo ''Download already in progress'']\<rparr>)
         = (handleDownloadImages_exit images1 toastId result v)
             \<lparr>toastLog := toastLog v @ [ToastInfo ''Download already in progress'']
                @ drop (length (toastLog v)) (toastLog (handleDownloadImages_exit images1 toastId result v))\<rparr>)
   \<and> \<not> downloadLock (handleDownloadImages_exit images1 toastId result v)
   \<and> \<not> isDownloading (handleDownloadImages_exit images1 toastId result v)
   \<and> (\<not> downloadLock v \<and> images \<noteq> [] \<longrightarrow>
        (\<exists>tid v1. handleDownloadImages_enter images v = (Started tid, v1) \<and> downloadLock v1
           \<and> saved v1 = saved v))
   \<and> (\<not> downloadLock v
        \<and> handleDownloadImages b label images format packaging split combine v = Some v2
      \<longrightarrow> \<not> downloadLock v2)
   \<and> (\<not> downloadLock v
        \<and> (\<forall>i < length images. \<forall>w h. fetchImage b i = Loaded w h \<longrightarrow> w < 2 ^ 53 \<and> h < 2 ^ 53)
      \<longrightarrow> (\<exists>v3. handleDownloadImages b label images format packaging split False v = Some v3
             \<and> \<not> downloadLock v3))"
proof (intro conjI impI)
  assume a: "downloadLock v \<and> images \<noteq> []"
  then show e: "handleDownloadImages_enter images v
         = (Rejected, v\<lparr>toastLog := toastLog v @ [ToastInfo ''Download already in progress'']\<rparr>)"
    by (simp add: handleDownloadImages_enter_def)
  then show "handleDownloadImages b label images format packaging split combine v
         = Some (v\<lparr>toastLog := toastLog v @ [ToastInfo ''Download already in progress'']\<rparr>)"
    by (simp add: handleDownloadImages_def)
  show "handleDownloadImages_exit images1 toastId result
           (v\<lparr>toastLog := toastLog v @ [ToastInfo ''Download already in progress'']\<rparr>)
         = (handleDownloadImages_exit images1 toastId result v)
             \<lparr>toastLog := toastLog v @ [ToastInfo ''Download already in progress'']
                @ drop (length (toastLog v)) (toastLog (handleDownloadImages_exit images1 toastId result v))\<rparr>"
    by (simp add: handleDownloadImages_exit_def)
next
  show "\<not> downloadLock (handleDownloadImages_exit images1 toastId result v)"
    by (simp add: handleDownloadImages_exit_def)
  show "\<not> isDownloading (handleDownloadImages_exit images1 toastId result v)"
    by (simp add: handleDownloadImages_exit_def)
next
  assume "\<not> downloadLock v \<and> images \<noteq> []"
  then show "\<exists>tid v1. handleDownloadImages_enter images v = (Started tid, v1) \<and> downloadLock v1
           \<and> saved v1 = saved v"
    by (simp add: handleDownloadImages_enter_def)
next
  assume a: "\<not> downloadLock v
        \<and> handleDownloadImages b label images format packaging split combine v = Some v2"
  show "\<not> downloadLock v2"
  proof (cases "images = []")
    case True
    then have "v2 = v\<lparr>toastLog := toastLog v @ [ToastError ''No images to download'']\<rparr>"
      using a by (simp add: handleDownloadImages_def handleDownloadImages_enter_def)
    then show ?thesis using a by simp
  next
    case False
    then obtain result where
      "v2 = handleDownloadImages_exit images (length (toastLog v)) result
              (v\<lparr>downloadLock := True, isDownloading := True,
                 toastLog := toastLog v @
                   [ToastLoading (''Preparing to download '' @ numberToString (int (length images))
                                  @ '' images...'')]\<rparr>)"
      using a by (auto simp: handleDownloadImages_def handleDownloadImages_enter_def
          split: option.splits)
    then show ?thesis by (simp add: handleDownloadImages_exit_def)
  qed
next
  assume a: "\<not> downloadLock v
        \<and> (\<forall>i < length images. \<forall>w h. fetchImage b i = Loaded w h \<longrightarrow> w < 2 ^ 53 \<and> h < 2 ^ 53)"
  from body_total obtain result where
    body: "handleDownloadImages_body b label images format packaging split False = Some result"
    by blast
  show "\<exists>v3. handleDownloadImages b label images format packaging split False v = Some v3
             \<and> \<not> downloadLock v3"
  proof (cases "images = []")
    case True
    then show ?thesis using a
      by (simp add: handleDownloadImages_def handleDownloadImages_enter_def)
  next
    case False
    then show ?thesis using a body
      by (simp add: handleDownloadImages_def handleDownloadImages_enter_def
          handleDownloadImages_exit_def)
  qed
qed

theorem single_in_flight_witness:
  "downloadLock busyViewer \<and> replicate 5 blankPage \<noteq> []
   \<and> handleDownloadImages thirdFails ''gallery'' (replicate 5 blankPage) png zip' True True busyViewer
       = Some \<lparr>downloadLock = True, isDownloading = True,
            toastLog = [ToastLoading ''Preparing to download 5 images...'',
                        ToastInfo ''Download already in progress''],
            saved = []\<rparr>
   \<and> handleDownloadImages_exit (replicate 5 blankPage) 0 (Threw, [])
        \<lparr>downloadLock = True, isDownloading = True,
            toastLog = [ToastLoading ''Preparing to download 5 images...'',
                        ToastInfo ''Download already in progress''],
            saved = []\<rparr>
       = \<lparr>downloadLock = False, isDownloading = False,
            toastLog = [ToastLoading ''Preparing to download 5 images...'',
                        ToastInfo ''Download already in progress'',
                        ToastDismiss 0, ToastError ''Download failed. Please try again.''],
            saved = []\<rparr>
   \<and> (\<exists>v3. handleDownloadImages thirdFails ''gallery'' (replicate 5 blankPage) png zip' True False
               idleViewer = Some v3 \<and> \<not> downloadLock v3)"
proof -
  have h: "downloadLock busyViewer \<and> replicate 5 blankPage \<noteq> []" by (simp add: busyViewer_def)
  have busy: "handleDownloadImages thirdFails ''gallery'' (replicate 5 blankPage) png zip' True True
         busyViewer
       = Some \<lparr>downloadLock = True, isDownloading = True,
            toastLog = [ToastLoading ''Preparing to download 5 images...'',
                        ToastInfo ''Download already in progress''],
            saved = []\<rparr>
   \<and> handleDownloadImages_exit (replicate 5 blankPage) 0 (Threw, [])
        \<lparr>downloadLock = True, isDownloading = True,
            toastLog = [ToastLoading ''Preparing to download 5 images...'',
                        ToastInfo ''Download already in progress''],
            saved = []\<rparr>
       = \<lparr>downloadLock = False, isDownloading = False,
            toastLog = [ToastLoading ''Preparing to download 5 images...'',
                        ToastInfo ''Download already in progress'',
                        ToastDismiss 0, ToastError ''Download failed. Please try again.''],
            saved = []\<rparr>"
    using single_in_flight [of busyViewer "replicate 5 blankPage" thirdFails "''gallery''" png zip'
        True True "replicate 5 blankPage" 0 "(Threw, [])"] h
    by (simp add: busyViewer_def handleDownloadImages_exit_def)
  have "\<not> downloadLock idleViewer" by (simp add: idleViewer_def)
  then have idle: "\<exists>v3. handleDownloadImages thirdFails ''gallery'' (replicate 5 blankPage) png zip' True
      False idleViewer = Some v3 \<and> \<not> downloadLock v3"
    using single_in_flight [of idleViewer "replicate 5 blankPage" thirdFails "''gallery''" png zip'
        True False] thirdFails_sizes
    by blast
  show ?thesis using h busy idle by blast
qed

section \<open>Lemmas about the combine branch\<close>











































section \<open>Claim about the combine branch\<close>




end
